theory Spec2Isabelle
  imports Complex_Main
begin

section \<open>JavaScript values, errors and promises\<close>

text \<open>
  The values that travel through \<^verbatim>\<open>commands/rekognition.js\<close> are the JSON-like objects
  returned by the Rekognition client and the records the command builds itself. An object
  is the list of its own properties in property order. A number inside such a value is
  only stored and printed, never computed with; it is represented by its decimal literal,
  the text \<^verbatim>\<open>Number.prototype.toString\<close> yields for it. The numbers the command computes
  with (the similarity threshold) are those of the section on JavaScript numbers.
\<close>

datatype jsval =
    JNull
  | JBool bool
  | JNum string
  | JStr string
  | JArr "jsval list"
  | JObj "(string \<times> jsval) list"

text \<open>
  An \<^verbatim>\<open>Error\<close> object as the command reads it: \<^verbatim>\<open>error.code\<close> and \<^verbatim>\<open>error.message\<close>.
  The code is absent on errors made with \<^verbatim>\<open>new Error(msg)\<close>, and on the service exceptions
  of the \<^verbatim>\<open>@aws-sdk/client-rekognition\<close> client, which name their kind in \<^verbatim>\<open>error.name\<close>.
\<close>

record js_error =
  code :: "string option"
  message :: string

text \<open>A settled promise.\<close>

datatype 'a settled = Fulfilled 'a | Rejected js_error

text \<open>
  A pending promise of a remote call: the time at which it settles and the state it
  settles in.
\<close>

type_synonym 'a promise = "nat \<times> 'a settled"

text \<open>\<^verbatim>\<open>obj[key] = v\<close>: an existing property keeps its place, a new one goes last.\<close>

fun assign :: "'k \<Rightarrow> 'v \<Rightarrow> ('k \<times> 'v) list \<Rightarrow> ('k \<times> 'v) list" where
  "assign k v [] = [(k, v)]"
| "assign k v (p # ps) = (if fst p = k then (k, v) # ps else p # assign k v ps)"

text \<open>\<^verbatim>\<open>Array.prototype.includes\<close> on an array of strings.\<close>

definition array_includes :: "string list \<Rightarrow> string \<Rightarrow> bool" where
  "array_includes xs x = (x \<in> set xs)"

text \<open>
  \<^verbatim>\<open>Promise.all\<close> on settled promises: rejected with the error of a rejected member,
  fulfilled with all the values otherwise.
\<close>

fun Promise_all :: "'a settled list \<Rightarrow> 'a list settled" where
  "Promise_all [] = Fulfilled []"
| "Promise_all (Rejected e # ps) = Rejected e"
| "Promise_all (Fulfilled v # ps) =
     (case Promise_all ps of Rejected e \<Rightarrow> Rejected e | Fulfilled vs \<Rightarrow> Fulfilled (v # vs))"


section \<open>The Rekognition client\<close>

type_synonym bytes = "nat list"

text \<open>
  The commands of \<^verbatim>\<open>@aws-sdk/client-rekognition\<close> the file builds, with the parameters it
  gives them: \<^verbatim>\<open>DetectLabelsCommand {Image, MaxLabels, MinConfidence}\<close>,
  \<^verbatim>\<open>DetectTextCommand {Image}\<close>, \<^verbatim>\<open>DetectFacesCommand {Image, Attributes}\<close>,
  \<^verbatim>\<open>DetectModerationLabelsCommand {Image, MinConfidence}\<close>,
  \<^verbatim>\<open>RecognizeCelebritiesCommand {Image}\<close> and
  \<^verbatim>\<open>CompareFacesCommand {SourceImage, TargetImage, SimilarityThreshold}\<close>.
\<close>

datatype command =
    DetectLabelsCommand bytes nat nat
  | DetectTextCommand bytes
  | DetectFacesCommand bytes "string list"
  | DetectModerationLabelsCommand bytes nat
  | RecognizeCelebritiesCommand bytes
  | CompareFacesCommand bytes bytes rat

text \<open>
  \<^verbatim>\<open>rekognitionClient.send\<close>: the remote service decides how each command settles and
  when.
\<close>

type_synonym client = "command \<Rightarrow> jsval promise"

definition detectLabels :: "client \<Rightarrow> bytes \<Rightarrow> jsval promise" where
  "detectLabels send imageBuffer = send (DetectLabelsCommand imageBuffer 50 70)"

definition detectText :: "client \<Rightarrow> bytes \<Rightarrow> jsval promise" where
  "detectText send imageBuffer = send (DetectTextCommand imageBuffer)"

definition detectFaces :: "client \<Rightarrow> bytes \<Rightarrow> jsval promise" where
  "detectFaces send imageBuffer = send (DetectFacesCommand imageBuffer [''ALL''])"

definition detectModerationLabels :: "client \<Rightarrow> bytes \<Rightarrow> jsval promise" where
  "detectModerationLabels send imageBuffer = send (DetectModerationLabelsCommand imageBuffer 50)"

definition recognizeCelebrities :: "client \<Rightarrow> bytes \<Rightarrow> jsval promise" where
  "recognizeCelebrities send imageBuffer = send (RecognizeCelebritiesCommand imageBuffer)"


section \<open>runAnalyses\<close>

text \<open>The failure record \<^verbatim>\<open>{ error: err.message }\<close>.\<close>

definition failure_record :: "js_error \<Rightarrow> jsval" where
  "failure_record err = JObj [(''error'', JStr (message err))]"

text \<open>
  One element of \<^verbatim>\<open>analyses\<close>:
  \<^verbatim>\<open>call.then(data => results[key] = data).catch(err => results[key] = { error: err.message })\<close>.
  When the call settles, one of the two callbacks writes the slot \<^verbatim>\<open>key\<close> of
  \<^verbatim>\<open>results\<close>, and the chained promise is fulfilled with the value written.
\<close>

definition settle ::
  "string \<times> jsval promise \<Rightarrow> (string \<times> jsval) list \<times> jsval settled list \<Rightarrow>
   (string \<times> jsval) list \<times> jsval settled list" where
  "settle a st =
     (case st of (results, chained) \<Rightarrow>
        (case snd (snd a) of
           Fulfilled data \<Rightarrow> (assign (fst a) data results, chained @ [Fulfilled data])
         | Rejected err \<Rightarrow>
             (assign (fst a) (failure_record err) results,
              chained @ [Fulfilled (failure_record err)])))"

text \<open>
  The five guarded pushes, in source order. Each call is started when it is pushed; the
  callbacks run in the order in which the calls settle (calls settling at the same time
  in the order they were started). \<^verbatim>\<open>await Promise.all(analyses)\<close> rethrows a rejection
  of a chained promise; otherwise \<^verbatim>\<open>results\<close> is returned.
\<close>

definition dispatch :: "client \<Rightarrow> bytes \<Rightarrow> string list \<Rightarrow> (string \<times> jsval promise) list" where
  "dispatch send imageBuffer features =
     (if array_includes features ''labels'' then [(''labels'', detectLabels send imageBuffer)] else []) @
     (if array_includes features ''text'' then [(''text'', detectText send imageBuffer)] else []) @
     (if array_includes features ''faces'' then [(''faces'', detectFaces send imageBuffer)] else []) @
     (if array_includes features ''moderation''
      then [(''moderation'', detectModerationLabels send imageBuffer)] else []) @
     (if array_includes features ''celebrities''
      then [(''celebrities'', recognizeCelebrities send imageBuffer)] else [])"

definition runAnalyses :: "client \<Rightarrow> bytes \<Rightarrow> string list \<Rightarrow> (string \<times> jsval) list settled" where
  "runAnalyses send imageBuffer features =
     (case fold settle (sort_key (\<lambda>a. fst (snd a)) (dispatch send imageBuffer features)) ([], []) of
        (results, chained) \<Rightarrow>
          (case Promise_all chained of
             Rejected e \<Rightarrow> Rejected e
           | Fulfilled _ \<Rightarrow> Fulfilled results))"

text \<open>The closed enumeration of features, and the command each one sends.\<close>

definition all_features :: "string list" where
  "all_features = [''labels'', ''text'', ''faces'', ''moderation'', ''celebrities'']"

definition feature_call :: "client \<Rightarrow> bytes \<Rightarrow> string \<Rightarrow> jsval promise" where
  "feature_call send imageBuffer f =
     (if f = ''labels'' then detectLabels send imageBuffer
      else if f = ''text'' then detectText send imageBuffer
      else if f = ''faces'' then detectFaces send imageBuffer
      else if f = ''moderation'' then detectModerationLabels send imageBuffer
      else recognizeCelebrities send imageBuffer)"

text \<open>The entry a settled call leaves in \<^verbatim>\<open>results\<close>: its payload, or the failure record.\<close>

definition entry_of :: "jsval settled \<Rightarrow> jsval" where
  "entry_of s = (case s of Fulfilled data \<Rightarrow> data | Rejected err \<Rightarrow> failure_record err)"


section \<open>JavaScript numbers\<close>

text \<open>
  A finite \<^verbatim>\<open>Number\<close> is the rational it denotes. The arithmetic operators compute the
  exact result and round it to the nearest IEEE 754 binary64 value, ties to even: 53
  significant bits, the exponent of the last place never below \<open>-1074\<close> (subnormal
  numbers). Overflow to \<^verbatim>\<open>Infinity\<close> is outside the model; it needs a magnitude of
  \<open>2 ^ 1024\<close>.
\<close>

function bitlen :: "int \<Rightarrow> int" where
  "bitlen n = (if n \<le> 0 then 0 else 1 + bitlen (n div 2))"
  by pat_completeness auto
termination
  by (relation "measure nat") auto

declare bitlen.simps [simp del]

text \<open>\<open>\<lfloor>log\<^sub>2 x\<rfloor>\<close> for a positive rational \<open>x\<close>.\<close>

definition ilog2 :: "rat \<Rightarrow> int" where
  "ilog2 x =
     (case quotient_of x of (a, b) \<Rightarrow>
        (let d = bitlen a - bitlen b
         in if x < 2 powi d then d - 1 else d))"

definition round_half_even :: "rat \<Rightarrow> int" where
  "round_half_even x =
     (let f = \<lfloor>x\<rfloor>; r = x - of_int f
      in if r < 1 / 2 then f
         else if 1 / 2 < r then f + 1
         else if even f then f else f + 1)"

definition round_double :: "rat \<Rightarrow> rat" where
  "round_double x =
     (if x = 0 then 0
      else (let e = max (ilog2 \<bar>x\<bar> - 52) (- 1074)
            in of_int (round_half_even (x / 2 powi e)) * 2 powi e))"

definition js_div :: "rat \<Rightarrow> rat \<Rightarrow> rat" where
  "js_div x y = round_double (x / y)"

definition js_mul :: "rat \<Rightarrow> rat \<Rightarrow> rat" where
  "js_mul x y = round_double (x * y)"

text \<open>
  \<^verbatim>\<open>value || dflt\<close> on a number option of the interaction: absent (\<^verbatim>\<open>null\<close>) and \<open>0\<close> are
  falsy.
\<close>

definition or_default :: "rat option \<Rightarrow> rat \<Rightarrow> rat" where
  "or_default v dflt = (case v of None \<Rightarrow> dflt | Some x \<Rightarrow> if x = 0 then dflt else x)"

text \<open>\<^verbatim>\<open>!s\<close> on a string option of the interaction: \<^verbatim>\<open>null\<close> and the empty string.\<close>

definition falsy :: "string option \<Rightarrow> bool" where
  "falsy s = (case s of None \<Rightarrow> True | Some x \<Rightarrow> x = [])"

text \<open>\<^verbatim>\<open>String.prototype.includes\<close>.\<close>

fun string_includes :: "string \<Rightarrow> string \<Rightarrow> bool" where
  "string_includes [] sub = (sub = [])"
| "string_includes (c # cs) sub = (take (length sub) (c # cs) = sub \<or> string_includes cs sub)"


section \<open>JSON.stringify and JSON.parse\<close>

text \<open>
  \<^verbatim>\<open>JSON.stringify(value, null, 2)\<close> as ECMA-262 defines it, on the values of type
  \<open>jsval\<close>: members and elements one per line, indented by two spaces per level; empty
  objects and arrays as \<^verbatim>\<open>{}\<close> and \<^verbatim>\<open>[]\<close>. \<open>newline d\<close> is the line break followed by
  the indentation of level \<open>d\<close>.
\<close>

definition newline :: "nat \<Rightarrow> string" where
  "newline d = CHR 0x0A # replicate (2 * d) CHR '' ''"

text \<open>
  \<^verbatim>\<open>QuoteJSONString\<close>: the quotation mark, the backslash and the control characters are
  escaped, the latter as \<^verbatim>\<open>\b \f \n \r \t\<close> or as \<^verbatim>\<open>\u00XX\<close> with lower-case
  hexadecimal digits. A string is a list of 8-bit characters.
\<close>

definition hexdigit :: "nat \<Rightarrow> char" where
  "hexdigit n = ''0123456789abcdef'' ! n"

definition escape_char :: "char \<Rightarrow> string" where
  "escape_char c =
     (if c = CHR 0x22 then [CHR 0x5C, CHR 0x22]
      else if c = CHR 0x5C then [CHR 0x5C, CHR 0x5C]
      else if c = CHR 0x08 then [CHR 0x5C, CHR ''b'']
      else if c = CHR 0x0C then [CHR 0x5C, CHR ''f'']
      else if c = CHR 0x0A then [CHR 0x5C, CHR ''n'']
      else if c = CHR 0x0D then [CHR 0x5C, CHR ''r'']
      else if c = CHR 0x09 then [CHR 0x5C, CHR ''t'']
      else if (of_char c :: nat) < 32
        then [CHR 0x5C, CHR ''u'', CHR ''0'', CHR ''0'',
              hexdigit (of_char c div 16), hexdigit (of_char c mod 16)]
      else [c])"

definition quote :: "string \<Rightarrow> string" where
  "quote s = CHR 0x22 # concat (map escape_char s) @ [CHR 0x22]"

fun stringify :: "nat \<Rightarrow> jsval \<Rightarrow> string"
  and stringify_elements :: "nat \<Rightarrow> jsval list \<Rightarrow> string"
  and stringify_members :: "nat \<Rightarrow> (string \<times> jsval) list \<Rightarrow> string" where
  "stringify d JNull = ''null''"
| "stringify d (JBool b) = (if b then ''true'' else ''false'')"
| "stringify d (JNum lit) = lit"
| "stringify d (JStr s) = quote s"
| "stringify d (JArr vs) =
     (if vs = [] then ''[]''
      else ''['' @ newline (Suc d) @ stringify_elements (Suc d) vs @ newline d @ '']'')"
| "stringify d (JObj ms) =
     (if ms = [] then ''{}''
      else ''{'' @ newline (Suc d) @ stringify_members (Suc d) ms @ newline d @ ''}'')"
| "stringify_elements d [] = []"
| "stringify_elements d (v # vs) =
     stringify d v @ (if vs = [] then [] else '','' @ newline d @ stringify_elements d vs)"
| "stringify_members d [] = []"
| "stringify_members d (m # ms) =
     quote (fst m) @ '': '' @ stringify d (snd m) @
     (if ms = [] then [] else '','' @ newline d @ stringify_members d ms)"

definition JSON_stringify :: "jsval \<Rightarrow> string" where
  "JSON_stringify v = stringify 0 v"

text \<open>
  \<^verbatim>\<open>JSON.parse\<close>: a recursive-descent parser for the JSON grammar. White space is
  space, tab, line feed and carriage return.
\<close>

definition is_ws :: "char \<Rightarrow> bool" where
  "is_ws c = (c = CHR '' '' \<or> c = CHR 0x09 \<or> c = CHR 0x0A \<or> c = CHR 0x0D)"

definition skip_ws :: "string \<Rightarrow> string" where
  "skip_ws s = dropWhile is_ws s"

definition hexval :: "char \<Rightarrow> nat option" where
  "hexval c =
     (let n = (of_char c :: nat)
      in if 48 \<le> n \<and> n \<le> 57 then Some (n - 48)
         else if 97 \<le> n \<and> n \<le> 102 then Some (n - 87)
         else if 65 \<le> n \<and> n \<le> 70 then Some (n - 55)
         else None)"

definition unescape_simple :: "char \<Rightarrow> char option" where
  "unescape_simple e =
     (if e = CHR 0x22 then Some (CHR 0x22)
      else if e = CHR 0x5C then Some (CHR 0x5C)
      else if e = CHR ''/'' then Some (CHR ''/'')
      else if e = CHR ''b'' then Some (CHR 0x08)
      else if e = CHR ''f'' then Some (CHR 0x0C)
      else if e = CHR ''n'' then Some (CHR 0x0A)
      else if e = CHR ''r'' then Some (CHR 0x0D)
      else if e = CHR ''t'' then Some (CHR 0x09)
      else None)"

definition hex4 :: "char \<Rightarrow> char \<Rightarrow> char \<Rightarrow> char \<Rightarrow> nat option" where
  "hex4 h1 h2 h3 h4 =
     (case hexval h1 of None \<Rightarrow> None | Some a \<Rightarrow>
      (case hexval h2 of None \<Rightarrow> None | Some b \<Rightarrow>
       (case hexval h3 of None \<Rightarrow> None | Some c \<Rightarrow>
        (case hexval h4 of None \<Rightarrow> None | Some d \<Rightarrow>
           Some (((a * 16 + b) * 16 + c) * 16 + d)))))"

text \<open>
  The characters of a string after its opening quotation mark, up to the closing one:
  the string read and the rest of the input. A \<^verbatim>\<open>\uXXXX\<close> escape beyond \<open>0xFF\<close> has no
  8-bit character and is refused.
\<close>

fun parse_chars :: "string \<Rightarrow> (string \<times> string) option" where
  "parse_chars [] = None"
| "parse_chars (c # cs) =
     (if c = CHR 0x22 then Some ([], cs)
      else if c = CHR 0x5C then
        (case cs of
           [] \<Rightarrow> None
         | e # r \<Rightarrow>
             if e = CHR ''u'' then
               (case r of
                  h1 # h2 # h3 # h4 # r' \<Rightarrow>
                    (case hex4 h1 h2 h3 h4 of
                       None \<Rightarrow> None
                     | Some n \<Rightarrow>
                         if n < 256
                         then (case parse_chars r' of
                                 None \<Rightarrow> None
                               | Some (s, t) \<Rightarrow> Some (char_of n # s, t))
                         else None)
                | _ \<Rightarrow> None)
             else
               (case unescape_simple e of
                  None \<Rightarrow> None
                | Some x \<Rightarrow>
                    (case parse_chars r of
                       None \<Rightarrow> None
                     | Some (s, t) \<Rightarrow> Some (x # s, t))))
      else if (of_char c :: nat) < 32 then None
      else (case parse_chars cs of None \<Rightarrow> None | Some (s, t) \<Rightarrow> Some (c # s, t)))"

text \<open>
  Numbers: \<open>number_literal\<close> recognises the JSON number grammar, an optional minus sign, an
  integer part without a leading zero, an optional fraction and an optional exponent.
  \<open>parse_number\<close> takes the longest run of number characters; in a JSON text a number is
  followed by white space, a comma or a closing bracket, so the run is the number.
\<close>

definition is_digit :: "char \<Rightarrow> bool" where
  "is_digit c = (48 \<le> (of_char c :: nat) \<and> (of_char c :: nat) \<le> 57)"

definition number_char :: "char \<Rightarrow> bool" where
  "number_char c =
     (is_digit c \<or> c = CHR ''-'' \<or> c = CHR ''+'' \<or> c = CHR ''.'' \<or> c = CHR ''e'' \<or> c = CHR ''E'')"

definition exponent_part :: "string \<Rightarrow> bool" where
  "exponent_part s =
     (case s of
        [] \<Rightarrow> True
      | c # r \<Rightarrow>
          (c = CHR ''e'' \<or> c = CHR ''E'') \<and>
          (let ds = (case r of [] \<Rightarrow> [] | x # t \<Rightarrow> if x = CHR ''+'' \<or> x = CHR ''-'' then t else r)
           in ds \<noteq> [] \<and> list_all is_digit ds))"

definition fraction_part :: "string \<Rightarrow> bool" where
  "fraction_part s =
     (case s of
        [] \<Rightarrow> True
      | c # r \<Rightarrow>
          if c = CHR ''.''
          then takeWhile is_digit r \<noteq> [] \<and> exponent_part (dropWhile is_digit r)
          else exponent_part s)"

definition number_literal :: "string \<Rightarrow> bool" where
  "number_literal s =
     (let u = (case s of [] \<Rightarrow> [] | c # r \<Rightarrow> if c = CHR ''-'' then r else s);
          ip = takeWhile is_digit u
      in ip \<noteq> [] \<and> (hd ip = CHR ''0'' \<longrightarrow> length ip = 1) \<and> fraction_part (dropWhile is_digit u))"

definition parse_number :: "string \<Rightarrow> (jsval \<times> string) option" where
  "parse_number s =
     (let lit = takeWhile number_char s
      in if number_literal lit then Some (JNum lit, dropWhile number_char s) else None)"

definition parse_literal :: "string \<Rightarrow> jsval \<Rightarrow> string \<Rightarrow> (jsval \<times> string) option" where
  "parse_literal w v s = (if take (length w) s = w then Some (v, drop (length w) s) else None)"

text \<open>The object of a list of members: a repeated key keeps its place and takes the last value.\<close>

definition object_of :: "(string \<times> jsval) list \<Rightarrow> jsval" where
  "object_of ms = JObj (fold (\<lambda>m. assign (fst m) (snd m)) ms [])"

text \<open>
  The parser of values, of the elements of an array after its opening bracket and of the
  members of an object after its opening brace. The first argument bounds the length of
  the input still to be read; \<open>JSON_parse\<close> starts with the length of the text, so the
  bound is never reached.
\<close>

function parse_value :: "nat \<Rightarrow> string \<Rightarrow> (jsval \<times> string) option"
  and parse_elements :: "nat \<Rightarrow> string \<Rightarrow> (jsval list \<times> string) option"
  and parse_members :: "nat \<Rightarrow> string \<Rightarrow> ((string \<times> jsval) list \<times> string) option" where
  "parse_value 0 s = None"
| "parse_value (Suc n) s =
     (case skip_ws s of
        [] \<Rightarrow> None
      | c # cs \<Rightarrow>
          if c = CHR ''{'' then
            (case skip_ws cs of
               [] \<Rightarrow> None
             | c' # r \<Rightarrow>
                 if c' = CHR ''}'' then Some (JObj [], r)
                 else (case parse_members n (c' # r) of
                         None \<Rightarrow> None
                       | Some (ms, r') \<Rightarrow> Some (object_of ms, r')))
          else if c = CHR ''['' then
            (case skip_ws cs of
               [] \<Rightarrow> None
             | c' # r \<Rightarrow>
                 if c' = CHR '']'' then Some (JArr [], r)
                 else (case parse_elements n (c' # r) of
                         None \<Rightarrow> None
                       | Some (vs, r') \<Rightarrow> Some (JArr vs, r')))
          else if c = CHR 0x22 then
            (case parse_chars cs of None \<Rightarrow> None | Some (str, r) \<Rightarrow> Some (JStr str, r))
          else if c = CHR ''t'' then parse_literal ''true'' (JBool True) (c # cs)
          else if c = CHR ''f'' then parse_literal ''false'' (JBool False) (c # cs)
          else if c = CHR ''n'' then parse_literal ''null'' JNull (c # cs)
          else parse_number (c # cs))"
| "parse_elements 0 s = None"
| "parse_elements (Suc n) s =
     (case parse_value (Suc n) s of
        None \<Rightarrow> None
      | Some (v, r) \<Rightarrow>
          (case skip_ws r of
             [] \<Rightarrow> None
           | c # r' \<Rightarrow>
               if c = CHR '','' then
                 (case parse_elements n r' of
                    None \<Rightarrow> None
                  | Some (vs, r'') \<Rightarrow> Some (v # vs, r''))
               else if c = CHR '']'' then Some ([v], r')
               else None))"
| "parse_members 0 s = None"
| "parse_members (Suc n) s =
     (case skip_ws s of
        [] \<Rightarrow> None
      | q # cs \<Rightarrow>
          if q \<noteq> CHR 0x22 then None
          else
            (case parse_chars cs of
               None \<Rightarrow> None
             | Some (k, r) \<Rightarrow>
                 (case skip_ws r of
                    [] \<Rightarrow> None
                  | c # r1 \<Rightarrow>
                      if c \<noteq> CHR '':'' then None
                      else
                        (case parse_value (Suc n) r1 of
                           None \<Rightarrow> None
                         | Some (v, r2) \<Rightarrow>
                             (case skip_ws r2 of
                                [] \<Rightarrow> None
                              | c2 # r3 \<Rightarrow>
                                  if c2 = CHR '','' then
                                    (case parse_members n r3 of
                                       None \<Rightarrow> None
                                     | Some (ms, r4) \<Rightarrow> Some ((k, v) # ms, r4))
                                  else if c2 = CHR ''}'' then Some ([(k, v)], r3)
                                  else None)))))"
  by pat_completeness auto
termination
  by (relation "measure (\<lambda>x. case x of
        Inl (n, s) \<Rightarrow> 2 * n
      | Inr (Inl (n, s)) \<Rightarrow> 2 * n + 1
      | Inr (Inr (n, s)) \<Rightarrow> 2 * n + 1)") auto

definition JSON_parse :: "string \<Rightarrow> jsval option" where
  "JSON_parse s =
     (case parse_value (length s) s of
        None \<Rightarrow> None
      | Some (v, r) \<Rightarrow> if skip_ws r = [] then Some v else None)"

text \<open>
  The values JavaScript can hold: the keys of an object are distinct, and a number is
  written as a number literal.
\<close>

fun wf_json :: "jsval \<Rightarrow> bool" where
  "wf_json (JNum lit) = number_literal lit"
| "wf_json (JArr vs) = list_all wf_json vs"
| "wf_json (JObj ms) = (distinct (map fst ms) \<and> list_all (\<lambda>m. wf_json (snd m)) ms)"
| "wf_json v = True"


section \<open>The temporary directory\<close>

text \<open>
  The directory \<^verbatim>\<open>temp\<close> as the list of its entries, in the order \<^verbatim>\<open>readdirSync\<close> lists
  them. An entry is a regular file, with its modification time in milliseconds and its
  contents, or a sub-directory.
\<close>

datatype node = RegularFile int string | Directory int

fun mtime :: "node \<Rightarrow> int" where
  "mtime (RegularFile t data) = t"
| "mtime (Directory t) = t"

type_synonym directory = "(string \<times> node) list"

definition readdirSync :: "directory \<Rightarrow> string list" where
  "readdirSync d = map fst d"

definition statSync :: "directory \<Rightarrow> string \<Rightarrow> js_error + node" where
  "statSync d file =
     (case map_of d file of
        None \<Rightarrow> Inl \<lparr>code = Some ''ENOENT'', message = ''ENOENT: no such file or directory''\<rparr>
      | Some nd \<Rightarrow> Inr nd)"

definition unlinkSync :: "directory \<Rightarrow> string \<Rightarrow> js_error + directory" where
  "unlinkSync d file =
     (case map_of d file of
        None \<Rightarrow> Inl \<lparr>code = Some ''ENOENT'', message = ''ENOENT: no such file or directory''\<rparr>
      | Some (Directory t) \<Rightarrow>
          Inl \<lparr>code = Some ''EISDIR'', message = ''EISDIR: illegal operation on a directory''\<rparr>
      | Some (RegularFile t data) \<Rightarrow> Inr (filter (\<lambda>entry. fst entry \<noteq> file) d))"

definition writeFileSync :: "directory \<Rightarrow> string \<Rightarrow> string \<Rightarrow> int \<Rightarrow> js_error + directory" where
  "writeFileSync d file data now =
     (case map_of d file of
        Some (Directory t) \<Rightarrow>
          Inl \<lparr>code = Some ''EISDIR'', message = ''EISDIR: illegal operation on a directory''\<rparr>
      | _ \<Rightarrow> Inr (assign file (RegularFile now data) d))"


section \<open>cleanupTempFiles\<close>

text \<open>
  The body of \<^verbatim>\<open>files.forEach\<close>, entry by entry. An exception of \<^verbatim>\<open>statSync\<close> or
  \<^verbatim>\<open>unlinkSync\<close> leaves the loop; the directory is then as the entries before have
  left it.
\<close>

fun forEach_file :: "int \<Rightarrow> string list \<Rightarrow> directory \<Rightarrow> directory \<times> js_error option" where
  "forEach_file now [] d = (d, None)"
| "forEach_file now (file # files) d =
     (case statSync d file of
        Inl e \<Rightarrow> (d, Some e)
      | Inr stats \<Rightarrow>
          (let age = now - mtime stats
           in if age > 60000
              then (case unlinkSync d file of
                      Inl e \<Rightarrow> (d, Some e)
                    | Inr d' \<Rightarrow> forEach_file now files d')
              else forEach_file now files d))"

text \<open>
  \<^verbatim>\<open>cleanupTempFiles\<close> at time \<open>now\<close> (\<^verbatim>\<open>Date.now()\<close>): the state of the directory
  (\<open>None\<close> when it does not exist) afterwards, and the error the \<^verbatim>\<open>catch\<close> clause has
  logged, if any.
\<close>

definition cleanupTempFiles :: "int \<Rightarrow> directory option \<Rightarrow> directory option \<times> js_error option" where
  "cleanupTempFiles now tempDir =
     (case tempDir of
        None \<Rightarrow> (None, None)
      | Some d \<Rightarrow>
          (case forEach_file now (readdirSync d) d of (d', err) \<Rightarrow> (Some d', err)))"



definition EISDIR :: js_error where
  "EISDIR = \<lparr>code = Some ''EISDIR'', message = ''EISDIR: illegal operation on a directory''\<rparr>"


section \<open>Report files\<close>

text \<open>
  What the report functions read from their surroundings: \<^verbatim>\<open>new Date().toISOString()\<close>,
  the clock that stamps the written file, and \<^verbatim>\<open>crypto.randomBytes(4)\<close>.
\<close>

record system =
  timestamp :: string
  clock :: int
  randomBytes4 :: "nat list"

text \<open>\<^verbatim>\<open>Buffer.toString('hex')\<close>.\<close>

definition toString_hex :: "nat list \<Rightarrow> string" where
  "toString_hex bs = concat (map (\<lambda>b. [hexdigit (b div 16), hexdigit (b mod 16)]) bs)"

definition path_join :: "string \<Rightarrow> string \<Rightarrow> string" where
  "path_join dir file = dir @ ''/'' @ file"

definition createAnalysisReport ::
  "system \<Rightarrow> (string \<times> jsval) list \<Rightarrow> string \<Rightarrow> string \<Rightarrow> directory \<Rightarrow> string settled \<times> directory" where
  "createAnalysisReport sys results imageSource tempDir d =
     (let report = JObj
            [(''meta'', JObj
               [(''timestamp'', JStr (timestamp sys)),
                (''source'', JStr imageSource),
                (''analysisType'', JStr ''comprehensive_image_analysis'')]),
             (''results'', JObj results)];
          file = ''analysis_'' @ toString_hex (randomBytes4 sys) @ ''.json'';
          reportPath = path_join tempDir file
      in case writeFileSync d file (JSON_stringify report) (clock sys) of
           Inl e \<Rightarrow> (Rejected e, d)
         | Inr d' \<Rightarrow> (Fulfilled reportPath, d'))"

definition createComparisonReport ::
  "system \<Rightarrow> jsval \<Rightarrow> string \<Rightarrow> string \<Rightarrow> string \<Rightarrow> directory \<Rightarrow> string settled \<times> directory" where
  "createComparisonReport sys comparisonResult sourceDesc targetDesc tempDir d =
     (let report = JObj
            [(''meta'', JObj
               [(''timestamp'', JStr (timestamp sys)),
                (''source'', JStr sourceDesc),
                (''target'', JStr targetDesc),
                (''analysisType'', JStr ''face_comparison'')]),
             (''results'', comparisonResult)];
          file = ''comparison_'' @ toString_hex (randomBytes4 sys) @ ''.json'';
          reportPath = path_join tempDir file
      in case writeFileSync d file (JSON_stringify report) (clock sys) of
           Inl e \<Rightarrow> (Rejected e, d)
         | Inr d' \<Rightarrow> (Fulfilled reportPath, d'))"

text \<open>\<^verbatim>\<open>obj[key]\<close> on a parsed document.\<close>

definition property :: "string \<Rightarrow> jsval \<Rightarrow> jsval option" where
  "property k v = (case v of JObj ms \<Rightarrow> map_of ms k | _ \<Rightarrow> None)"


section \<open>compareFaces and handleCompare\<close>

text \<open>
  \<^verbatim>\<open>compareFaces\<close>: the command it builds, and the promise of sending it.
\<close>

definition compareFaces :: "client \<Rightarrow> bytes \<Rightarrow> bytes \<Rightarrow> rat \<Rightarrow> command \<times> jsval promise" where
  "compareFaces send sourceBuffer targetBuffer threshold =
     (let command = CompareFacesCommand sourceBuffer targetBuffer (js_mul threshold 100)
      in (command, send command))"

record attachment =
  contentType :: "string option"
  url :: string
  name :: string

text \<open>The options of the \<^verbatim>\<open>compare\<close> subcommand, as \<^verbatim>\<open>interaction.options\<close> returns them.\<close>

record compare_options =
  source_url :: "string option"
  source_image :: "attachment option"
  target_url :: "string option"
  target_image :: "attachment option"
  similarity :: "rat option"

text \<open>What \<^verbatim>\<open>processUploadedImage\<close> and \<^verbatim>\<open>processImageUrl\<close> return.\<close>

record image_result =
  buffer :: bytes
  description :: string

text \<open>
  The messages the command sends with \<^verbatim>\<open>interaction.editReply\<close>, one constructor per
  message text of the source.
\<close>

datatype reply =
    SourceImageRequired
  | TargetImageRequired
  | PreparingFaceComparison rat
  | ComparingFaces
  | FaceComparisonComplete jsval string string rat string
  | NoFacesDetected
  | InvalidImageFormat
  | ImageTooLarge
  | AccessDenied
  | ErrorMessage string
  | ErrorOccurred

text \<open>
  The surroundings of \<^verbatim>\<open>handleCompare\<close>. Downloading and storing an image is the work of
  \<^verbatim>\<open>processUploadedImage\<close> and \<^verbatim>\<open>processImageUrl\<close>; they depend on the network, and are
  given here by their outcome: the image or the error thrown, and the directory as they
  leave it.
\<close>

record compare_env =
  client_send :: client
  processUploadedImage :: "attachment \<Rightarrow> string \<Rightarrow> directory \<Rightarrow> (js_error + image_result) \<times> directory"
  processImageUrl :: "string option \<Rightarrow> string \<Rightarrow> directory \<Rightarrow> (js_error + image_result) \<times> directory"
  system_of :: system
  env_tempDir :: string

text \<open>What a run of \<^verbatim>\<open>handleCompare\<close> leaves behind.\<close>

record compare_run =
  replies :: "reply list"
  sent :: "command list"
  thrown :: "js_error option"
  dir :: directory

text \<open>\<^verbatim>\<open>attachment ? await processUploadedImage(attachment, ...) : await processImageUrl(url, ...)\<close>\<close>

definition process_image ::
  "compare_env \<Rightarrow> attachment option \<Rightarrow> string option \<Rightarrow> string \<Rightarrow> directory \<Rightarrow>
   (js_error + image_result) \<times> directory" where
  "process_image env att u prefix d =
     (case att of
        Some a \<Rightarrow> processUploadedImage env a prefix d
      | None \<Rightarrow> processImageUrl env u prefix d)"

text \<open>The \<^verbatim>\<open>try\<close> block of \<^verbatim>\<open>handleCompare\<close>.\<close>

definition handleCompare_try :: "compare_env \<Rightarrow> compare_options \<Rightarrow> rat \<Rightarrow> directory \<Rightarrow> compare_run" where
  "handleCompare_try env opts similarityThreshold d0 =
     (case process_image env (source_image opts) (source_url opts) ''source'' d0 of
        (Inl e, d1) \<Rightarrow> \<lparr>replies = [], sent = [], thrown = Some e, dir = d1\<rparr>
      | (Inr sourceResult, d1) \<Rightarrow>
          (case process_image env (target_image opts) (target_url opts) ''target'' d1 of
             (Inl e, d2) \<Rightarrow> \<lparr>replies = [], sent = [], thrown = Some e, dir = d2\<rparr>
           | (Inr targetResult, d2) \<Rightarrow>
               (case compareFaces (client_send env) (buffer sourceResult) (buffer targetResult)
                       (js_div similarityThreshold 100) of
                  (command, p) \<Rightarrow>
                    (case snd p of
                       Rejected e \<Rightarrow>
                         \<lparr>replies = [ComparingFaces], sent = [command], thrown = Some e, dir = d2\<rparr>
                     | Fulfilled comparisonResult \<Rightarrow>
                         (case createComparisonReport (system_of env) comparisonResult
                                 (description sourceResult) (description targetResult)
                                 (env_tempDir env) d2 of
                            (Rejected e, d3) \<Rightarrow>
                              \<lparr>replies = [ComparingFaces], sent = [command], thrown = Some e,
                               dir = d3\<rparr>
                          | (Fulfilled reportPath, d3) \<Rightarrow>
                              \<lparr>replies =
                                 [ComparingFaces,
                                  FaceComparisonComplete comparisonResult
                                    (description sourceResult) (description targetResult)
                                    similarityThreshold reportPath],
                               sent = [command], thrown = None, dir = d3\<rparr>)))))"

definition handleCompare :: "compare_env \<Rightarrow> compare_options \<Rightarrow> directory \<Rightarrow> compare_run" where
  "handleCompare env opts d0 =
     (let similarityThreshold = or_default (similarity opts) 80
      in if falsy (source_url opts) \<and> source_image opts = None
         then \<lparr>replies = [SourceImageRequired], sent = [], thrown = None, dir = d0\<rparr>
         else if falsy (target_url opts) \<and> target_image opts = None
         then \<lparr>replies = [TargetImageRequired], sent = [], thrown = None, dir = d0\<rparr>
         else
           (let run = handleCompare_try env opts similarityThreshold d0;
                started = PreparingFaceComparison similarityThreshold # replies run
            in case thrown run of
                 None \<Rightarrow> run\<lparr>replies := started\<rparr>
               | Some error \<Rightarrow>
                   if code error = Some ''InvalidParameterException'' \<and>
                      string_includes (message error) ''no face''
                   then run\<lparr>replies := started @ [NoFacesDetected], thrown := None\<rparr>
                   else run\<lparr>replies := started\<rparr>))"

text \<open>\<^verbatim>\<open>handleError\<close>: the message for an error that reaches \<^verbatim>\<open>execute\<close>.\<close>

definition handleError :: "js_error \<Rightarrow> reply" where
  "handleError error =
     (if code error = Some ''InvalidImageFormatException'' then InvalidImageFormat
      else if code error = Some ''ImageTooLargeException'' then ImageTooLarge
      else if code error = Some ''AccessDeniedException'' then AccessDenied
      else if message error \<noteq> [] then ErrorMessage (message error)
      else ErrorOccurred)"


section \<open>Example clients\<close>

text \<open>Remote services used to run the definitions on concrete inputs.\<close>

definition example_send :: client where
  "example_send c =
     (case c of
        DetectLabelsCommand b n m \<Rightarrow>
          (3, Fulfilled (JObj [(''Labels'',
                JArr [JObj [(''Name'', JStr ''Dog''), (''Confidence'', JNum ''99.5'')]])]))
      | DetectTextCommand b \<Rightarrow> (1, Fulfilled (JObj [(''TextDetections'', JArr [])]))
      | DetectFacesCommand b as \<Rightarrow>
          (2, Rejected \<lparr>code = Some ''ThrottlingException'', message = ''Rate exceeded''\<rparr>)
      | DetectModerationLabelsCommand b n \<Rightarrow> (1, Fulfilled (JObj [(''ModerationLabels'', JArr [])]))
      | RecognizeCelebritiesCommand b \<Rightarrow> (0, Fulfilled (JObj [(''CelebrityFaces'', JArr [])]))
      | CompareFacesCommand s t x \<Rightarrow>
          (1, Rejected \<lparr>code = Some ''InvalidParameterException'',
                message = ''There are no faces in the image''\<rparr>))"

definition failing_send :: client where
  "failing_send c = (0, Rejected \<lparr>code = Some ''AccessDeniedException'', message = ''denied''\<rparr>)"

definition example_image :: image_result where
  "example_image = \<lparr>buffer = [255, 216, 255], description = ''uploaded image (face.jpg)''\<rparr>"

definition example_env :: compare_env where
  "example_env =
     \<lparr>client_send = example_send,
      processUploadedImage = (\<lambda>a prefix d. (Inr example_image, d)),
      processImageUrl = (\<lambda>u prefix d.
         (Inl \<lparr>code = None, message = ''Failed to download image: timeout''\<rparr>, d)),
      system_of = \<lparr>timestamp = ''2024-05-01T12:00:00.000Z'', clock = 1714564800000,
              randomBytes4 = [10, 27, 44, 61]\<rparr>,
      env_tempDir = ''/app/temp''\<rparr>"

definition example_attachment :: attachment where
  "example_attachment =
     \<lparr>contentType = Some ''image/jpeg'', url = ''https://cdn.example/face.jpg'', name = ''face.jpg''\<rparr>"

definition example_options :: "rat option \<Rightarrow> compare_options" where
  "example_options s =
     \<lparr>source_url = None, source_image = Some example_attachment,
      target_url = None, target_image = Some example_attachment,
      similarity = s\<rparr>"

text \<open>
  A client that rejects a comparison the way the SDK v3 client does when an image shows no
  face: the exception has the name \<^verbatim>\<open>InvalidParameterException\<close>, no \<^verbatim>\<open>code\<close>, and the
  message of the service.
\<close>

definition sdk_v3_send :: client where
  "sdk_v3_send c =
     (case c of
        CompareFacesCommand s t x \<Rightarrow>
          (1, Rejected \<lparr>code = None, message = ''Request has invalid parameters''\<rparr>)
      | _ \<Rightarrow> example_send c)"

definition sdk_v3_env :: compare_env where
  "sdk_v3_env = example_env\<lparr>client_send := sdk_v3_send\<rparr>"

definition example_dir :: directory where
  "example_dir =
     [(''source_face.png'', RegularFile 1000 ''PNG''),
      (''analysis_0a1b2c3d.json'', RegularFile 40000 ''{}''),
      (''image_a1b2c3d4e5f6.jpg'', RegularFile 40001 ''JPG'')]"


section \<open>Properties of runAnalyses\<close>

text \<open>
  The callbacks write distinct slots, so the mapping does not depend on the order in
  which the calls settle: \<open>runAnalyses_results\<close> describes it for every client.
\<close>

lemma assign_keys: "fst ` set (assign k v ps) = insert k (fst ` set ps)"
  by (induction ps) auto

lemma assign_distinct: "distinct (map fst ps) \<Longrightarrow> distinct (map fst (assign k v ps))"
  by (induction ps) (auto simp: assign_keys)

lemma assign_map_of: "map_of (assign k v ps) = (map_of ps)(k \<mapsto> v)"
  by (induction ps) auto

lemma settle_fst:
  "fst (settle a st) = assign (fst a) (entry_of (snd (snd a))) (fst st)"
  by (cases st) (simp add: settle_def entry_of_def split: settled.splits)

lemma settle_snd:
  "snd (settle a st) = snd st @ [Fulfilled (entry_of (snd (snd a)))]"
  by (cases st) (simp add: settle_def entry_of_def split: settled.splits)

lemma fold_settle_keys:
  "fst ` set (fst (fold settle xs st)) = fst ` set (fst st) \<union> fst ` set xs"
  by (induction xs arbitrary: st) (simp_all add: settle_fst assign_keys)

lemma fold_settle_distinct:
  "distinct (map fst (fst st)) \<Longrightarrow> distinct (map fst (fst (fold settle xs st)))"
  by (induction xs arbitrary: st) (auto simp: settle_fst assign_distinct)

lemma fold_settle_map_of:
  "distinct (map fst xs) \<Longrightarrow> (k, p) \<in> set xs \<Longrightarrow>
   map_of (fst (fold settle xs st)) k = Some (entry_of (snd p))"
proof (induction xs arbitrary: st)
  case Nil
  then show ?case by simp
next
  case (Cons a xs)
  show ?case
  proof (cases "(k, p) \<in> set xs")
    case True
    with Cons show ?thesis by simp
  next
    case False
    with Cons.prems have a: "a = (k, p)" by simp
    with Cons.prems have notin: "k \<notin> fst ` set xs" by simp
    have "map_of (fst (fold settle xs st')) k = map_of (fst st') k" for st'
      using notin by (induction xs arbitrary: st') (auto simp: settle_fst assign_map_of)
    then show ?thesis by (simp add: a settle_fst assign_map_of)
  qed
qed

lemma fold_settle_chained:
  "snd (fold settle xs st) = snd st @ map (\<lambda>a. Fulfilled (entry_of (snd (snd a)))) xs"
  by (induction xs arbitrary: st) (auto simp: settle_snd)

lemma Promise_all_Fulfilled: "Promise_all (map (\<lambda>a. Fulfilled (g a)) xs) = Fulfilled (map g xs)"
  by (induction xs) auto

lemma dispatch_keys:
  "fst ` set (dispatch send imageBuffer features) = set features \<inter> set all_features"
  by (auto simp: dispatch_def array_includes_def all_features_def)

lemma dispatch_distinct: "distinct (map fst (dispatch send imageBuffer features))"
  by (simp add: dispatch_def)

lemma dispatch_call:
  "(k, p) \<in> set (dispatch send imageBuffer features) \<Longrightarrow> p = feature_call send imageBuffer k"
  by (auto simp: dispatch_def feature_call_def split: if_splits)

lemma insort_key_distinct_keys:
  "distinct (map g (insort_key f x xs)) = (g x \<notin> g ` set xs \<and> distinct (map g xs))"
  by (induction xs) (auto simp: set_insort_key)

lemma sort_key_distinct_keys:
  "distinct (map g xs) \<Longrightarrow> distinct (map g (sort_key f xs))"
proof (induction xs)
  case Nil
  then show ?case by simp
next
  case (Cons a xs)
  have "set (sort_key f xs) = set xs" by simp
  with Cons show ?case by (simp add: insort_key_distinct_keys)
qed

lemma runAnalyses_results:
  "\<exists>results. runAnalyses send imageBuffer features = Fulfilled results \<and>
     distinct (map fst results) \<and>
     set (map fst results) = set features \<inter> set all_features \<and>
     (\<forall>f \<in> set features \<inter> set all_features.
        map_of results f = Some (entry_of (snd (feature_call send imageBuffer f))))"
proof -
  define xs where "xs = sort_key (\<lambda>a. fst (snd a)) (dispatch send imageBuffer features)"
  define st where "st = fold settle xs ([], [])"
  have run: "runAnalyses send imageBuffer features = Fulfilled (fst st)"
    unfolding runAnalyses_def xs_def [symmetric] st_def [symmetric]
    using fold_settle_chained [of xs "([], [])"]
    by (cases st) (simp add: st_def [symmetric] Promise_all_Fulfilled)
  have dxs: "distinct (map fst xs)"
    unfolding xs_def by (rule sort_key_distinct_keys) (rule dispatch_distinct)
  have sxs: "set xs = set (dispatch send imageBuffer features)"
    unfolding xs_def by simp
  have keys: "set (map fst (fst st)) = set features \<inter> set all_features"
    using sxs dispatch_keys [of send imageBuffer features]
    by (simp add: st_def fold_settle_keys)
  have dist: "distinct (map fst (fst st))"
    unfolding st_def by (rule fold_settle_distinct) simp
  have ent: "map_of (fst st) f = Some (entry_of (snd (feature_call send imageBuffer f)))"
    if "f \<in> set features \<inter> set all_features" for f
  proof -
    from that dispatch_keys [of send imageBuffer features]
    obtain p where p: "(f, p) \<in> set (dispatch send imageBuffer features)" by force
    then have "p = feature_call send imageBuffer f" by (rule dispatch_call)
    with p sxs dxs show ?thesis
      unfolding st_def using fold_settle_map_of [of xs f p "([], [])"] by simp
  qed
  from run keys dist ent show ?thesis by blast
qed

lemma example_run:
  "runAnalyses example_send [255, 216, 255] [''labels'', ''faces''] =
     Fulfilled [(''faces'', JObj [(''error'', JStr ''Rate exceeded'')]),
       (''labels'', JObj [(''Labels'',
          JArr [JObj [(''Name'', JStr ''Dog''), (''Confidence'', JNum ''99.5'')]])])]"
  by (simp add: runAnalyses_def dispatch_def array_includes_def detectLabels_def detectFaces_def
      example_send_def settle_def failure_record_def)

text \<open>
  Claim C1. For every non-empty list of features taken from the five known names,
  \<open>runAnalyses\<close> returns normally, and the mapping it returns has exactly one entry for
  each requested feature (the payload of its call, or its failure record) and no entry
  under any other name.
\<close>

theorem runAnalyses_entry_per_feature:
  assumes "features \<noteq> []" and "set features \<subseteq> set all_features"
  shows "\<exists>results. runAnalyses send imageBuffer features = Fulfilled results \<and>
           distinct (map fst results) \<and>
           set (map fst results) = set features \<and>
           (\<forall>f \<in> set features.
              map_of results f = Some (entry_of (snd (feature_call send imageBuffer f))))"
proof -
  from assms(2) have "set features \<inter> set all_features = set features" by blast
  with runAnalyses_results [of send imageBuffer features] show ?thesis by simp
qed

theorem runAnalyses_entry_per_feature_witness:
  "[''labels'', ''faces''] \<noteq> [] \<and> set [''labels'', ''faces''] \<subseteq> set all_features \<and>
   (\<exists>results. runAnalyses example_send [255, 216, 255] [''labels'', ''faces''] = Fulfilled results \<and>
      distinct (map fst results) \<and>
      set (map fst results) = set [''labels'', ''faces''] \<and>
      (\<forall>f \<in> set [''labels'', ''faces''].
         map_of results f = Some (entry_of (snd (feature_call example_send [255, 216, 255] f)))))"
proof -
  have h1: "[''labels'', ''faces''] \<noteq> []" by simp
  have h2: "set [''labels'', ''faces''] \<subseteq> set all_features" by (simp add: all_features_def)
  from h1 h2 runAnalyses_entry_per_feature [OF h1 h2, of example_send "[255, 216, 255]"]
  show ?thesis by blast
qed

text \<open>
  Claim C2 (failure isolation). When the call of one requested feature \<open>f\<close> is rejected
  and the calls of all the other requested features are fulfilled, \<open>runAnalyses\<close> still
  returns normally; the mapping holds the payload of every other feature, and under \<open>f\<close>
  the failure record carrying the error's message.
\<close>

theorem runAnalyses_failure_isolation:
  assumes "f \<in> set features" and "set features \<subseteq> set all_features"
    and "snd (feature_call send imageBuffer f) = Rejected err"
    and "\<forall>g \<in> set features - {f}. snd (feature_call send imageBuffer g) = Fulfilled (payload g)"
  shows "\<exists>results. runAnalyses send imageBuffer features = Fulfilled results \<and>
           map_of results f = Some (JObj [(''error'', JStr (message err))]) \<and>
           (\<forall>g \<in> set features - {f}. map_of results g = Some (payload g))"
proof -
  from assms(2) have eq: "set features \<inter> set all_features = set features" by blast
  from runAnalyses_results [of send imageBuffer features] obtain results where
    run: "runAnalyses send imageBuffer features = Fulfilled results" and
    ent: "\<forall>h \<in> set features. map_of results h = Some (entry_of (snd (feature_call send imageBuffer h)))"
    unfolding eq by blast
  from ent assms(1,3) have "map_of results f = Some (JObj [(''error'', JStr (message err))])"
    by (simp add: entry_of_def failure_record_def)
  moreover from ent assms(4) have "\<forall>g \<in> set features - {f}. map_of results g = Some (payload g)"
    by (simp add: entry_of_def)
  ultimately show ?thesis using run by blast
qed

theorem runAnalyses_failure_isolation_witness:
  "''faces'' \<in> set [''labels'', ''text'', ''faces''] \<and>
   set [''labels'', ''text'', ''faces''] \<subseteq> set all_features \<and>
   snd (feature_call example_send [255, 216, 255] ''faces'') =
     Rejected \<lparr>code = Some ''ThrottlingException'', message = ''Rate exceeded''\<rparr> \<and>
   snd (feature_call example_send [255, 216, 255] ''labels'') =
     Fulfilled (JObj [(''Labels'',
       JArr [JObj [(''Name'', JStr ''Dog''), (''Confidence'', JNum ''99.5'')]])]) \<and>
   snd (feature_call example_send [255, 216, 255] ''text'') =
     Fulfilled (JObj [(''TextDetections'', JArr [])]) \<and>
   (\<exists>results.
      runAnalyses example_send [255, 216, 255] [''labels'', ''text'', ''faces''] = Fulfilled results \<and>
      map_of results ''faces'' = Some (JObj [(''error'', JStr ''Rate exceeded'')]) \<and>
      map_of results ''labels'' = Some (JObj [(''Labels'',
        JArr [JObj [(''Name'', JStr ''Dog''), (''Confidence'', JNum ''99.5'')]])]) \<and>
      map_of results ''text'' = Some (JObj [(''TextDetections'', JArr [])]))"
proof -
  define payload where "payload = (\<lambda>g. if g = ''labels''
     then JObj [(''Labels'', JArr [JObj [(''Name'', JStr ''Dog''), (''Confidence'', JNum ''99.5'')]])]
     else JObj [(''TextDetections'', JArr [])])"
  have h1: "''faces'' \<in> set [''labels'', ''text'', ''faces'']" by simp
  have h2: "set [''labels'', ''text'', ''faces''] \<subseteq> set all_features"
    by (simp add: all_features_def)
  have h3: "snd (feature_call example_send [255, 216, 255] ''faces'') =
     Rejected \<lparr>code = Some ''ThrottlingException'', message = ''Rate exceeded''\<rparr>"
    by (simp add: feature_call_def detectFaces_def example_send_def)
  have l: "snd (feature_call example_send [255, 216, 255] ''labels'') = Fulfilled (payload ''labels'')"
    by (simp add: feature_call_def detectLabels_def example_send_def payload_def)
  have t: "snd (feature_call example_send [255, 216, 255] ''text'') = Fulfilled (payload ''text'')"
    by (simp add: feature_call_def detectText_def example_send_def payload_def)
  from l t have h4: "\<forall>g \<in> set [''labels'', ''text'', ''faces''] - {''faces''}.
      snd (feature_call example_send [255, 216, 255] g) = Fulfilled (payload g)"
    by auto
  from runAnalyses_failure_isolation [OF h1 h2 h3 h4] obtain results where
    "runAnalyses example_send [255, 216, 255] [''labels'', ''text'', ''faces''] = Fulfilled results"
    "map_of results ''faces'' = Some (JObj [(''error'', JStr ''Rate exceeded'')])"
    "map_of results ''labels'' = Some (payload ''labels'')"
    "map_of results ''text'' = Some (payload ''text'')"
    by auto
  with h1 h2 h3 l t show ?thesis unfolding payload_def by (simp del: set_simps)
qed

text \<open>
  Claim C3. When the call of every requested feature is rejected, \<open>runAnalyses\<close> does not
  throw: it returns a mapping with exactly one entry per requested feature, each the
  failure record carrying that call's error message.
\<close>

theorem runAnalyses_all_fail:
  assumes "features \<noteq> []" and "set features \<subseteq> set all_features"
    and "\<forall>f \<in> set features. snd (feature_call send imageBuffer f) = Rejected (err f)"
  shows "\<exists>results. runAnalyses send imageBuffer features = Fulfilled results \<and>
           distinct (map fst results) \<and>
           set (map fst results) = set features \<and>
           (\<forall>f \<in> set features. map_of results f = Some (JObj [(''error'', JStr (message (err f)))]))"
proof -
  from assms(2) have eq: "set features \<inter> set all_features = set features" by blast
  from runAnalyses_results [of send imageBuffer features] obtain results where
    run: "runAnalyses send imageBuffer features = Fulfilled results" and
    dist: "distinct (map fst results)" and
    keys: "set (map fst results) = set features" and
    ent: "\<forall>h \<in> set features. map_of results h = Some (entry_of (snd (feature_call send imageBuffer h)))"
    unfolding eq by blast
  from ent assms(3)
  have "\<forall>f \<in> set features. map_of results f = Some (JObj [(''error'', JStr (message (err f)))])"
    by (simp add: entry_of_def failure_record_def)
  with run dist keys show ?thesis by blast
qed

theorem runAnalyses_all_fail_witness:
  "[''labels'', ''celebrities''] \<noteq> [] \<and>
   set [''labels'', ''celebrities''] \<subseteq> set all_features \<and>
   snd (feature_call failing_send [255, 216, 255] ''labels'') =
     Rejected \<lparr>code = Some ''AccessDeniedException'', message = ''denied''\<rparr> \<and>
   snd (feature_call failing_send [255, 216, 255] ''celebrities'') =
     Rejected \<lparr>code = Some ''AccessDeniedException'', message = ''denied''\<rparr> \<and>
   (\<exists>results.
      runAnalyses failing_send [255, 216, 255] [''labels'', ''celebrities''] = Fulfilled results \<and>
      distinct (map fst results) \<and>
      set (map fst results) = set [''labels'', ''celebrities''] \<and>
      (\<forall>f \<in> set [''labels'', ''celebrities''].
         map_of results f = Some (JObj [(''error'', JStr ''denied'')])))"
proof -
  have h1: "[''labels'', ''celebrities''] \<noteq> []" by simp
  have h2: "set [''labels'', ''celebrities''] \<subseteq> set all_features"
    by (simp add: all_features_def)
  have l: "snd (feature_call failing_send [255, 216, 255] ''labels'') =
     Rejected \<lparr>code = Some ''AccessDeniedException'', message = ''denied''\<rparr>"
    by (simp add: feature_call_def detectLabels_def failing_send_def)
  have c: "snd (feature_call failing_send [255, 216, 255] ''celebrities'') =
     Rejected \<lparr>code = Some ''AccessDeniedException'', message = ''denied''\<rparr>"
    by (simp add: feature_call_def recognizeCelebrities_def failing_send_def)
  from l c have h3: "\<forall>f \<in> set [''labels'', ''celebrities''].
      snd (feature_call failing_send [255, 216, 255] f) =
        Rejected ((\<lambda>f. \<lparr>code = Some ''AccessDeniedException'', message = ''denied''\<rparr>) f)"
    by simp
  from runAnalyses_all_fail [OF h1 h2 h3] h1 h2 l c
  show ?thesis by (simp del: set_simps)
qed

text \<open>
  Claim C7 says that \<open>runAnalyses\<close> fails on an empty feature set. It does not: no guard
  looks at the length of \<open>features\<close>, nothing is dispatched and the empty mapping is
  returned.
\<close>

theorem runAnalyses_empty_counterexample:
  "runAnalyses failing_send [255, 216, 255] [] = Fulfilled []"
  by (simp add: runAnalyses_def dispatch_def array_includes_def)

text \<open>
  Claim C7, amended. Called with an empty feature set, \<open>runAnalyses\<close> returns the empty
  mapping; and whatever the remote calls do, for any feature list, it never throws.
\<close>

theorem runAnalyses_never_rejects:
  "runAnalyses send imageBuffer [] = Fulfilled [] \<and>
   runAnalyses send imageBuffer features \<noteq> Rejected e"
proof
  show "runAnalyses send imageBuffer [] = Fulfilled []"
    by (simp add: runAnalyses_def dispatch_def array_includes_def)
  from runAnalyses_results [of send imageBuffer features]
  show "runAnalyses send imageBuffer features \<noteq> Rejected e" by auto
qed

text \<open>
  Claim C10. A feature list none of whose elements is one of the five known names is
  silently ignored: \<open>runAnalyses\<close> returns normally with the empty mapping.
\<close>

theorem runAnalyses_unknown_ignored:
  assumes "set features \<inter> set all_features = {}"
  shows "runAnalyses send imageBuffer features = Fulfilled []"
proof -
  from runAnalyses_results [of send imageBuffer features] assms obtain results where
    run: "runAnalyses send imageBuffer features = Fulfilled results" and
    keys: "set (map fst results) = {}" by auto
  from keys have "results = []" by simp
  with run show ?thesis by simp
qed

theorem runAnalyses_unknown_ignored_witness:
  "set [''all'', ''Labels'', ''''] \<inter> set all_features = {} \<and>
   runAnalyses example_send [255, 216, 255] [''all'', ''Labels'', ''''] = Fulfilled []"
proof -
  have h: "set [''all'', ''Labels'', ''''] \<inter> set all_features = {}"
    by (simp add: all_features_def)
  from h runAnalyses_unknown_ignored [OF h, of example_send "[255, 216, 255]"]
  show ?thesis by blast
qed


section \<open>Properties of JSON.stringify and JSON.parse\<close>

text \<open>
  Parsing undoes serialising: first for the characters of a string, then for number
  literals, then for all values at once, by induction along \<open>stringify\<close>.
\<close>

lemma skip_ws_nonws: "\<not> is_ws c \<Longrightarrow> skip_ws (c # s) = c # s"
  by (simp add: skip_ws_def)

lemma skip_ws_newline: "skip_ws (newline d @ s) = skip_ws s"
proof -
  have "\<forall>c \<in> set (newline d). is_ws c" by (simp add: newline_def is_ws_def)
  then show ?thesis unfolding skip_ws_def by (simp add: dropWhile_append2)
qed

lemma hexval_hexdigit_all: "list_all (\<lambda>n. hexval (hexdigit n) = Some n) [0..<16]"
  by code_simp

lemma hexval_hexdigit: "n < 16 \<Longrightarrow> hexval (hexdigit n) = Some n"
proof -
  assume "n < 16"
  then have "n \<in> set [0..<16]" by simp
  with hexval_hexdigit_all show ?thesis unfolding list_all_iff by blast
qed

lemma hexval_zero: "hexval CHR ''0'' = Some 0"
  by (simp add: hexval_def)

lemma hex4_byte:
  "n < 256 \<Longrightarrow> hex4 CHR ''0'' CHR ''0'' (hexdigit (n div 16)) (hexdigit (n mod 16)) = Some n"
  by (simp add: hex4_def hexval_zero hexval_hexdigit)

lemma of_char_less_256: "(of_char c :: nat) < 256"
  by (cases c) simp

lemma parse_chars_escape:
  "parse_chars (escape_char c @ t) =
     (case parse_chars t of None \<Rightarrow> None | Some (s, r) \<Rightarrow> Some (c # s, r))"
proof -
  consider (quote) "c = CHR 0x22" | (bs) "c = CHR 0x5C" | (b) "c = CHR 0x08" | (f) "c = CHR 0x0C"
    | (n) "c = CHR 0x0A" | (r) "c = CHR 0x0D" | (t) "c = CHR 0x09"
    | (ctl) "c \<noteq> CHR 0x22" "c \<noteq> CHR 0x5C" "c \<noteq> CHR 0x08" "c \<noteq> CHR 0x0C" "c \<noteq> CHR 0x0A"
        "c \<noteq> CHR 0x0D" "c \<noteq> CHR 0x09" "(of_char c :: nat) < 32"
    | (plain) "c \<noteq> CHR 0x22" "c \<noteq> CHR 0x5C" "\<not> (of_char c :: nat) < 32"
    by (cases "(of_char c :: nat) < 32") auto
  then show ?thesis
  proof cases
    case ctl
    have "hex4 CHR ''0'' CHR ''0'' (hexdigit (of_char c div 16)) (hexdigit (of_char c mod 16))
        = Some (of_char c)"
      by (rule hex4_byte) (rule of_char_less_256)
    with ctl show ?thesis
      by (simp add: escape_char_def of_char_less_256 split: option.split)
  next
    case plain
    then have "escape_char c = [c]"
      by (auto simp: escape_char_def)
    with plain show ?thesis by simp
  qed (simp_all add: escape_char_def unescape_simple_def split: option.split)
qed

lemma parse_chars_roundtrip:
  "parse_chars (concat (map escape_char s) @ CHR 0x22 # rest) = Some (s, rest)"
  by (induction s) (simp_all add: parse_chars_escape del: parse_chars.simps(2), simp)


lemma digit_number_char: "is_digit c \<Longrightarrow> number_char c"
  by (simp add: number_char_def)

lemma exponent_part_chars: "exponent_part s \<Longrightarrow> \<forall>c \<in> set s. number_char c"
proof (cases s)
  case Nil
  then show ?thesis by simp
next
  case (Cons c r)
  assume e: "exponent_part s"
  with Cons have c: "number_char c" by (auto simp: exponent_part_def number_char_def)
  have "\<forall>x \<in> set r. number_char x"
  proof (cases r)
    case Nil
    then show ?thesis by simp
  next
    case (Cons x t)
    with e \<open>s = c # r\<close> show ?thesis
      by (auto simp: exponent_part_def Let_def list_all_iff number_char_def split: if_splits)
  qed
  with c Cons show ?thesis by simp
qed

lemma fraction_part_chars: "fraction_part s \<Longrightarrow> \<forall>c \<in> set s. number_char c"
proof (cases s)
  case Nil
  then show ?thesis by simp
next
  case (Cons c r)
  assume f: "fraction_part s"
  show ?thesis
  proof (cases "c = CHR ''.''")
    case True
    with f Cons have "exponent_part (dropWhile is_digit r)" by (simp add: fraction_part_def)
    then have d: "\<forall>x \<in> set (dropWhile is_digit r). number_char x" by (rule exponent_part_chars)
    have t: "\<forall>x \<in> set (takeWhile is_digit r). number_char x"
      by (auto dest: set_takeWhileD intro: digit_number_char)
    have "set r = set (takeWhile is_digit r) \<union> set (dropWhile is_digit r)"
      by (metis set_append takeWhile_dropWhile_id)
    with d t have "\<forall>x \<in> set r. number_char x" by auto
    with True Cons show ?thesis by (simp add: number_char_def)
  next
    case False
    with f Cons have "exponent_part s" by (simp add: fraction_part_def)
    then show ?thesis by (rule exponent_part_chars)
  qed
qed

lemma number_literal_chars:
  assumes "number_literal s"
  shows "\<forall>c \<in> set s. number_char c" and "s \<noteq> []" and "hd s = CHR ''-'' \<or> is_digit (hd s)"
proof -
  define u where "u = (case s of [] \<Rightarrow> [] | c # r \<Rightarrow> if c = CHR ''-'' then r else s)"
  from assms have ip: "takeWhile is_digit u \<noteq> []" and fp: "fraction_part (dropWhile is_digit u)"
    by (simp_all add: number_literal_def u_def Let_def)
  from ip have "u \<noteq> []" by auto
  then show "s \<noteq> []" by (auto simp: u_def)
  from ip have hu: "is_digit (hd u)" by (cases u) (auto split: if_splits)
  with \<open>u \<noteq> []\<close> show "hd s = CHR ''-'' \<or> is_digit (hd s)"
    by (cases s) (auto simp: u_def split: if_splits)
  have d: "\<forall>x \<in> set (dropWhile is_digit u). number_char x"
    using fp by (rule fraction_part_chars)
  have t: "\<forall>x \<in> set (takeWhile is_digit u). number_char x"
    by (auto dest: set_takeWhileD intro: digit_number_char)
  have "set u = set (takeWhile is_digit u) \<union> set (dropWhile is_digit u)"
    by (metis set_append takeWhile_dropWhile_id)
  with d t have "\<forall>x \<in> set u. number_char x" by auto
  then show "\<forall>c \<in> set s. number_char c"
    by (cases s) (auto simp: u_def number_char_def split: if_splits)
qed

lemma parse_number_roundtrip:
  assumes "number_literal lit" and "rest = [] \<or> \<not> number_char (hd rest)"
  shows "parse_number (lit @ rest) = Some (JNum lit, rest)"
proof -
  from assms(1) have all: "\<forall>c \<in> set lit. number_char c" by (rule number_literal_chars)
  from assms(2) have t: "takeWhile number_char rest = []" and d: "dropWhile number_char rest = rest"
    by (cases rest; simp)+
  from all t have "takeWhile number_char (lit @ rest) = lit"
    by (simp add: takeWhile_append2)
  moreover from all d have "dropWhile number_char (lit @ rest) = rest"
    by (simp add: dropWhile_append2)
  ultimately show ?thesis using assms(1) by (simp add: parse_number_def)
qed

lemma assign_fresh: "k \<notin> fst ` set ps \<Longrightarrow> assign k v ps = ps @ [(k, v)]"
  by (induction ps) auto

lemma fold_assign_distinct:
  "distinct (map fst (acc @ ms)) \<Longrightarrow> fold (\<lambda>m. assign (fst m) (snd m)) ms acc = acc @ ms"
proof (induction ms arbitrary: acc)
  case Nil
  then show ?case by simp
next
  case (Cons m ms)
  from Cons.prems have "fst m \<notin> fst ` set acc" by auto
  then have "assign (fst m) (snd m) acc = acc @ [m]" by (simp add: assign_fresh)
  moreover from Cons.prems have "distinct (map fst ((acc @ [m]) @ ms))" by simp
  ultimately show ?case using Cons.IH [of "acc @ [m]"] by simp
qed

lemma object_of_distinct: "distinct (map fst ms) \<Longrightarrow> object_of ms = JObj ms"
  using fold_assign_distinct [of "[]" ms] by (simp add: object_of_def)

lemma digit_not_ws: "is_digit c \<Longrightarrow> \<not> is_ws c"
  by (auto simp: is_digit_def is_ws_def)

lemma parse_value_newline: "parse_value n (newline e @ s) = parse_value n s"
  by (cases n) (simp_all add: skip_ws_newline)

lemma parse_elements_newline: "parse_elements n (newline e @ s) = parse_elements n s"
  by (cases n) (simp_all add: parse_value_newline)

lemma parse_members_newline: "parse_members n (newline e @ s) = parse_members n s"
  by (cases n) (simp_all add: skip_ws_newline)

lemma stringify_head:
  assumes "wf_json v"
  shows "\<exists>c cs. stringify d v = c # cs \<and> \<not> is_ws c \<and> c \<noteq> CHR '']''"
proof (cases v)
  case (JNum lit)
  with assms have "number_literal lit" by simp
  then have "lit \<noteq> []" and h: "hd lit = CHR ''-'' \<or> is_digit (hd lit)"
    by (rule number_literal_chars)+
  then obtain c cs where lit: "lit = c # cs" by (cases lit) auto
  with h have "c = CHR ''-'' \<or> is_digit c" by simp
  then have "\<not> is_ws c \<and> c \<noteq> CHR '']''"
    by (auto simp: is_ws_def is_digit_def)
  with lit JNum show ?thesis by simp
qed (auto simp: is_ws_def quote_def)

lemma stringify_elements_head:
  assumes "vs \<noteq> []" and "list_all wf_json vs"
  shows "\<exists>c cs. stringify_elements d vs = c # cs \<and> \<not> is_ws c \<and> c \<noteq> CHR '']''"
proof -
  from assms obtain v ws where vs: "vs = v # ws" and "wf_json v" by (cases vs) auto
  with stringify_head [of v d] obtain c cs where "stringify d v = c # cs" "\<not> is_ws c" "c \<noteq> CHR '']''"
    by blast
  with vs show ?thesis by simp
qed

lemma parse_value_number:
  assumes "number_literal lit" and "rest = [] \<or> \<not> number_char (hd rest)"
  shows "parse_value (Suc n) (lit @ rest) = Some (JNum lit, rest)"
proof -
  from assms(1) have "lit \<noteq> []" and h: "hd lit = CHR ''-'' \<or> is_digit (hd lit)"
    by (rule number_literal_chars)+
  then obtain c cs where lit: "lit = c # cs" by (cases lit) auto
  with h have c: "c = CHR ''-'' \<or> is_digit c" by simp
  then have nws: "\<not> is_ws c" by (auto simp: is_ws_def is_digit_def)
  from c have ne: "c \<noteq> CHR ''{''" "c \<noteq> CHR ''[''" "c \<noteq> CHR 0x22" "c \<noteq> CHR ''t''" "c \<noteq> CHR ''f''"
    "c \<noteq> CHR ''n''"
    by (auto simp: is_digit_def)
  have "parse_value (Suc n) (c # cs @ rest) = parse_number (c # cs @ rest)"
    using ne by (simp add: skip_ws_nonws [OF nws])
  with parse_number_roundtrip [OF assms] lit show ?thesis by simp
qed

lemma roundtrip_mutual:
  "wf_json v \<Longrightarrow> rest = [] \<or> \<not> number_char (hd rest) \<Longrightarrow>
     length (stringify d v @ rest) \<le> n \<Longrightarrow>
     parse_value n (stringify d v @ rest) = Some (v, rest)"
  "vs \<noteq> [] \<Longrightarrow> list_all wf_json vs \<Longrightarrow>
     length (stringify_elements d vs @ newline e @ CHR '']'' # rest) \<le> n \<Longrightarrow>
     parse_elements n (stringify_elements d vs @ newline e @ CHR '']'' # rest) = Some (vs, rest)"
  "ms \<noteq> [] \<Longrightarrow> list_all (\<lambda>m. wf_json (snd m)) ms \<Longrightarrow>
     length (stringify_members d ms @ newline e @ CHR ''}'' # rest) \<le> n \<Longrightarrow>
     parse_members n (stringify_members d ms @ newline e @ CHR ''}'' # rest) = Some (ms, rest)"
proof (induction d v and d vs and d ms arbitrary: n rest and n rest e and n rest e
    rule: stringify_stringify_elements_stringify_members.induct)
  case (1 d)
  then obtain m where "n = Suc m" by (cases n) auto
  then show ?case by (simp add: skip_ws_nonws is_ws_def parse_literal_def)
next
  case (2 d b)
  then obtain m where "n = Suc m" by (cases n) (auto split: if_splits)
  then show ?case by (simp add: skip_ws_nonws is_ws_def parse_literal_def)
next
  case (3 d lit)
  from "3.prems"(1) have nl: "number_literal lit" by simp
  then have "lit \<noteq> []" by (rule number_literal_chars)
  with "3.prems"(3) obtain m where "n = Suc m" by (cases n) auto
  with parse_value_number [OF nl "3.prems"(2)] show ?case by simp
next
  case (4 d s)
  then obtain m where "n = Suc m" by (cases n) (auto simp: quote_def)
  then show ?case
    by (simp add: quote_def skip_ws_nonws is_ws_def parse_chars_roundtrip del: parse_chars.simps)
next
  case (5 d vs)
  show ?case
  proof (cases "vs = []")
    case True
    from "5.prems"(3) True obtain m where "n = Suc m" by (cases n) auto
    with True show ?thesis by (simp add: skip_ws_nonws is_ws_def)
  next
    case False
    define X where "X = stringify_elements (Suc d) vs @ newline d @ CHR '']'' # rest"
    from "5.prems"(1) have wf: "list_all wf_json vs" by simp
    from stringify_elements_head [OF False wf, of "Suc d"]
    obtain c cs where hd: "stringify_elements (Suc d) vs = c # cs" "\<not> is_ws c" "c \<noteq> CHR '']''"
      by blast
    then have X: "X = c # cs @ newline d @ CHR '']'' # rest" by (simp add: X_def)
    have tx: "stringify d (JArr vs) @ rest = CHR ''['' # newline (Suc d) @ X"
      using False by (simp add: X_def)
    from "5.prems"(3) have "length (CHR ''['' # newline (Suc d) @ X) \<le> n" by (simp only: tx)
    then obtain m where n: "n = Suc m" and len: "length X \<le> m"
      by (cases n) auto
    have "parse_elements m X = Some (vs, rest)"
      unfolding X_def using False wf len by (intro "5.IH") (simp_all add: X_def)
    moreover have "skip_ws (newline (Suc d) @ X) = X"
      using hd(2) by (simp add: skip_ws_newline X skip_ws_nonws)
    ultimately have "parse_value (Suc m) (CHR ''['' # newline (Suc d) @ X) = Some (JArr vs, rest)"
      using hd(3) by (simp add: skip_ws_nonws is_ws_def X)
    with tx n show ?thesis by simp
  qed
next
  case (6 d ms)
  show ?case
  proof (cases "ms = []")
    case True
    from "6.prems"(3) True obtain m where "n = Suc m" by (cases n) auto
    with True show ?thesis by (simp add: skip_ws_nonws is_ws_def)
  next
    case False
    define X where "X = stringify_members (Suc d) ms @ newline d @ CHR ''}'' # rest"
    from "6.prems"(1) have wf: "list_all (\<lambda>m. wf_json (snd m)) ms" and dist: "distinct (map fst ms)"
      by simp_all
    from False obtain m0 ms0 where ms: "ms = m0 # ms0" by (cases ms) auto
    then obtain cs where X: "X = CHR 0x22 # cs" by (simp add: X_def quote_def)
    have tx: "stringify d (JObj ms) @ rest = CHR ''{'' # newline (Suc d) @ X"
      using False by (simp add: X_def)
    from "6.prems"(3) have "length (CHR ''{'' # newline (Suc d) @ X) \<le> n" by (simp only: tx)
    then obtain m where n: "n = Suc m" and len: "length X \<le> m"
      by (cases n) auto
    have "parse_members m X = Some (ms, rest)"
      unfolding X_def using False wf len by (intro "6.IH") (simp_all add: X_def)
    moreover have "skip_ws (newline (Suc d) @ X) = X"
      by (simp add: skip_ws_newline X skip_ws_nonws is_ws_def)
    ultimately have "parse_value (Suc m) (CHR ''{'' # newline (Suc d) @ X) = Some (JObj ms, rest)"
      using object_of_distinct [OF dist] by (simp add: skip_ws_nonws is_ws_def X)
    with tx n show ?thesis by simp
  qed
next
  case (7 d)
  then show ?case by simp
next
  case (8 d v vs)
  from "8.prems"(2) have wfv: "wf_json v" and wfs: "list_all wf_json vs" by simp_all
  define R where "R = (if vs = [] then [] else '','' @ newline d @ stringify_elements d vs) @
     newline e @ CHR '']'' # rest"
  have tx: "stringify_elements d (v # vs) @ newline e @ CHR '']'' # rest = stringify d v @ R"
    by (simp add: R_def)
  from stringify_head [OF wfv, of d] obtain c cs where hd: "stringify d v = c # cs" by blast
  from "8.prems"(3) have L: "length (stringify d v @ R) \<le> n" by (simp only: tx)
  with hd obtain m where n: "n = Suc m" by (cases n) auto
  have delim: "R = [] \<or> \<not> number_char (hd R)"
    by (simp add: R_def newline_def number_char_def is_digit_def)
  have pv: "parse_value (Suc m) (stringify d v @ R) = Some (v, R)"
    using L n by (intro "8.IH"(1) wfv delim) simp
  show ?case
  proof (cases "vs = []")
    case True
    then have "skip_ws R = CHR '']'' # rest"
      by (simp add: R_def skip_ws_newline skip_ws_nonws is_ws_def)
    with pv tx n True show ?thesis by simp
  next
    case False
    define Y where "Y = stringify_elements d vs @ newline e @ CHR '']'' # rest"
    from False have R: "R = CHR '','' # newline d @ Y" by (simp add: R_def Y_def)
    from L n R hd have len: "length Y \<le> m" by simp
    have "parse_elements m Y = Some (vs, rest)"
      unfolding Y_def using False wfs len by (intro "8.IH"(2)) (simp_all add: Y_def)
    then have "parse_elements m (newline d @ Y) = Some (vs, rest)"
      by (simp add: parse_elements_newline)
    moreover have "skip_ws R = CHR '','' # newline d @ Y"
      by (simp add: R skip_ws_nonws is_ws_def)
    ultimately show ?thesis using pv tx n by simp
  qed
next
  case (9 d)
  then show ?case by simp
next
  case (10 d m ms)
  from "10.prems"(2) have wfv: "wf_json (snd m)" and wfs: "list_all (\<lambda>m. wf_json (snd m)) ms"
    by simp_all
  define R where "R = (if ms = [] then [] else '','' @ newline d @ stringify_members d ms) @
     newline e @ CHR ''}'' # rest"
  define K where "K = concat (map escape_char (fst m))"
  have tx: "stringify_members d (m # ms) @ newline e @ CHR ''}'' # rest =
      CHR 0x22 # K @ CHR 0x22 # CHR '':'' # CHR '' '' # stringify d (snd m) @ R"
    by (simp add: R_def K_def quote_def)
  from "10.prems"(3) have L: "length (CHR 0x22 # K @ CHR 0x22 # CHR '':'' # CHR '' '' #
      stringify d (snd m) @ R) \<le> n" by (simp only: tx)
  then obtain k where n: "n = Suc k" by (cases n) auto
  have delim: "R = [] \<or> \<not> number_char (hd R)"
    by (simp add: R_def newline_def number_char_def is_digit_def)
  from stringify_head [OF wfv, of d] obtain c cs where hd: "stringify d (snd m) = c # cs" "\<not> is_ws c"
    by blast
  have pv: "parse_value (Suc k) (stringify d (snd m) @ R) = Some (snd m, R)"
    using L n by (intro "10.IH"(1) wfv delim) simp
  then have pv': "parse_value (Suc k) (CHR '' '' # stringify d (snd m) @ R) = Some (snd m, R)"
    using hd by (simp add: skip_ws_def is_ws_def)
  have key: "parse_chars (K @ CHR 0x22 # CHR '':'' # CHR '' '' # stringify d (snd m) @ R) =
      Some (fst m, CHR '':'' # CHR '' '' # stringify d (snd m) @ R)"
    unfolding K_def by (rule parse_chars_roundtrip)
  show ?case
  proof (cases "ms = []")
    case True
    then have "skip_ws R = CHR ''}'' # rest"
      by (simp add: R_def skip_ws_newline skip_ws_nonws is_ws_def)
    with pv' key tx n True show ?thesis
      by (simp add: skip_ws_nonws is_ws_def del: parse_chars.simps)
  next
    case False
    define Y where "Y = stringify_members d ms @ newline e @ CHR ''}'' # rest"
    from False have R: "R = CHR '','' # newline d @ Y" by (simp add: R_def Y_def)
    from L n R have len: "length Y \<le> k" by simp
    have "parse_members k Y = Some (ms, rest)"
      unfolding Y_def using False wfs len by (intro "10.IH"(2)) (simp_all add: Y_def)
    then have "parse_members k (newline d @ Y) = Some (ms, rest)"
      by (simp add: parse_members_newline)
    moreover have "skip_ws R = CHR '','' # newline d @ Y"
      by (simp add: R skip_ws_nonws is_ws_def)
    ultimately show ?thesis using pv' key tx n
      by (simp add: skip_ws_nonws is_ws_def del: parse_chars.simps)
  qed
qed

lemma JSON_roundtrip: "wf_json v \<Longrightarrow> JSON_parse (JSON_stringify v) = Some v"
  using roundtrip_mutual(1) [of v "[]" 0 "length (stringify 0 v)"]
  by (simp add: JSON_parse_def JSON_stringify_def skip_ws_def)


section \<open>Properties of the report files\<close>

text \<open>The mapping \<open>runAnalyses\<close> returns is a well-formed value whenever the payloads are.\<close>

lemma feature_call_send: "\<exists>c. feature_call send imageBuffer f = send c"
proof -
  have "feature_call send imageBuffer f =
      send (if f = ''labels'' then DetectLabelsCommand imageBuffer 50 70
            else if f = ''text'' then DetectTextCommand imageBuffer
            else if f = ''faces'' then DetectFacesCommand imageBuffer [''ALL'']
            else if f = ''moderation'' then DetectModerationLabelsCommand imageBuffer 50
            else RecognizeCelebritiesCommand imageBuffer)"
    by (simp add: feature_call_def detectLabels_def detectText_def detectFaces_def
        detectModerationLabels_def recognizeCelebrities_def)
  then show ?thesis by (rule exI)
qed

lemma runAnalyses_results_wf:
  assumes "\<And>c data. snd (send c) = Fulfilled data \<Longrightarrow> wf_json data"
    and "runAnalyses send imageBuffer features = Fulfilled results"
  shows "wf_json (JObj results)"
proof -
  from runAnalyses_results [of send imageBuffer features] assms(2)
  have dist: "distinct (map fst results)"
    and keys: "set (map fst results) = set features \<inter> set all_features"
    and ent: "\<forall>f \<in> set features \<inter> set all_features.
        map_of results f = Some (entry_of (snd (feature_call send imageBuffer f)))"
    by auto
  have "wf_json (snd m)" if "m \<in> set results" for m
  proof -
    from that keys have "fst m \<in> set features \<inter> set all_features" by force
    with ent have "map_of results (fst m) = Some (entry_of (snd (feature_call send imageBuffer (fst m))))"
      by blast
    moreover from dist that have "map_of results (fst m) = Some (snd m)" by simp
    ultimately have m: "snd m = entry_of (snd (feature_call send imageBuffer (fst m)))" by simp
    obtain c where c: "feature_call send imageBuffer (fst m) = send c"
      using feature_call_send by blast
    show ?thesis
    proof (cases "snd (send c)")
      case (Fulfilled data)
      with assms(1) m c show ?thesis by (simp add: entry_of_def)
    next
      case (Rejected e)
      with m c show ?thesis by (simp add: entry_of_def failure_record_def)
    qed
  qed
  with dist show ?thesis by (simp add: list_all_iff)
qed

lemma writeFileSync_file:
  assumes "\<forall>t. map_of d fname \<noteq> Some (Directory t)"
  shows "writeFileSync d fname data now = Inr (assign fname (RegularFile now data) d)"
proof (cases "map_of d fname")
  case None
  then show ?thesis by (simp add: writeFileSync_def)
next
  case (Some nd)
  with assms show ?thesis by (cases nd) (simp_all add: writeFileSync_def)
qed

lemma analysis_report_wf:
  assumes "wf_json (JObj results)"
  shows "wf_json (JObj
            [(''meta'', JObj
               [(''timestamp'', JStr ts),
                (''source'', JStr imageSource),
                (''analysisType'', JStr ''comprehensive_image_analysis'')]),
             (''results'', JObj results)])"
  using assms by simp

text \<open>
  Claim C6 (report round trip). For every results mapping (an object with distinct keys
  whose numbers are number literals) and every source description, \<open>createAnalysisReport\<close>
  writes a file whose text, parsed back with \<open>JSON_parse\<close>, is a document whose \<open>results\<close>
  property is the results mapping itself: the same feature keys in the same order, every
  payload unchanged, every failure record still \<^verbatim>\<open>{error: message}\<close> with its message.
  Nothing is dropped, summarised or truncated. The only way for the write to fail is a
  sub-directory that has the name of the report file.
\<close>

theorem createAnalysisReport_roundtrip:
  assumes "wf_json (JObj results)"
    and "\<forall>t. map_of d (''analysis_'' @ toString_hex (randomBytes4 sys) @ ''.json'') \<noteq>
           Some (Directory t)"
  shows "\<exists>d' text report.
           createAnalysisReport sys results imageSource tempDir d =
             (Fulfilled (path_join tempDir (''analysis_'' @ toString_hex (randomBytes4 sys) @ ''.json'')),
              d') \<and>
           map_of d' (''analysis_'' @ toString_hex (randomBytes4 sys) @ ''.json'') =
             Some (RegularFile (clock sys) text) \<and>
           JSON_parse text = Some report \<and>
           property ''results'' report = Some (JObj results)"
proof -
  define fname where "fname = ''analysis_'' @ toString_hex (randomBytes4 sys) @ ''.json''"
  define report where "report = JObj
            [(''meta'', JObj
               [(''timestamp'', JStr (timestamp sys)),
                (''source'', JStr imageSource),
                (''analysisType'', JStr ''comprehensive_image_analysis'')]),
             (''results'', JObj results)]"
  define d' where "d' = assign fname (RegularFile (clock sys) (JSON_stringify report)) d"
  from assms(2) have w: "writeFileSync d fname (JSON_stringify report) (clock sys) = Inr d'"
    unfolding fname_def [symmetric] d'_def by (rule writeFileSync_file)
  have run: "createAnalysisReport sys results imageSource tempDir d =
      (Fulfilled (path_join tempDir fname), d')"
    using w by (simp add: createAnalysisReport_def Let_def fname_def report_def)
  have look: "map_of d' fname = Some (RegularFile (clock sys) (JSON_stringify report))"
    by (simp add: d'_def assign_map_of)
  have "wf_json report" unfolding report_def using assms(1) by (rule analysis_report_wf)
  then have parse: "JSON_parse (JSON_stringify report) = Some report" by (rule JSON_roundtrip)
  have pr: "property ''results'' report = Some (JObj results)"
    by (simp add: property_def report_def)
  from run look parse pr show ?thesis unfolding fname_def by blast
qed

theorem createAnalysisReport_roundtrip_witness:
  "\<exists>d' text report.
     createAnalysisReport (system_of example_env)
       [(''faces'', JObj [(''error'', JStr ''Rate exceeded'')]),
        (''labels'', JObj [(''Labels'',
           JArr [JObj [(''Name'', JStr ''Dog''), (''Confidence'', JNum ''99.5'')]])])]
       ''https://cdn.example/dog.jpg'' ''/app/temp'' example_dir =
       (Fulfilled ''/app/temp/analysis_0a1b2c3d.json'', d') \<and>
     map_of d' ''analysis_0a1b2c3d.json'' = Some (RegularFile 1714564800000 text) \<and>
     JSON_parse text = Some report \<and>
     property ''results'' report =
       Some (JObj [(''faces'', JObj [(''error'', JStr ''Rate exceeded'')]),
        (''labels'', JObj [(''Labels'',
           JArr [JObj [(''Name'', JStr ''Dog''), (''Confidence'', JNum ''99.5'')]])])])"
proof -
  let ?results = "[(''faces'', JObj [(''error'', JStr ''Rate exceeded'')]),
        (''labels'', JObj [(''Labels'',
           JArr [JObj [(''Name'', JStr ''Dog''), (''Confidence'', JNum ''99.5'')]])])]"
  have n: "number_literal ''99.5''" by code_simp
  have h1: "wf_json (JObj ?results)" using n by simp
  have hex0: "toString_hex [10, 27, 44, 61] = ''0a1b2c3d''"
    by (simp add: toString_hex_def hexdigit_def)
  then have hex: "toString_hex (randomBytes4 (system_of example_env)) = ''0a1b2c3d''"
    by (simp add: example_env_def)
  have h2: "\<forall>t. map_of example_dir (''analysis_'' @ toString_hex (randomBytes4 (system_of example_env)) @
      ''.json'') \<noteq> Some (Directory t)"
    by (simp add: hex example_dir_def)
  from createAnalysisReport_roundtrip [OF h1 h2, of "''https://cdn.example/dog.jpg''" "''/app/temp''"]
  show ?thesis by (simp add: hex hex0 path_join_def example_env_def)
qed


section \<open>Properties of cleanupTempFiles\<close>

text \<open>
  The loop over the listing, for a listing \<open>xs\<close> of entries of the directory: as long as
  every entry to be removed is a regular file, the loop runs to its end and removes the
  entries of \<open>xs\<close> that are older than the threshold.
\<close>

lemma map_of_entry: "distinct (map fst d) \<Longrightarrow> (fname, nd) \<in> set d \<Longrightarrow> map_of d fname = Some nd"
  by simp

lemma forEach_file_sweeps:
  assumes "distinct (map fst d)" and "set xs \<subseteq> set d" and "distinct (map fst xs)"
    and "\<forall>entry \<in> set xs. now - mtime (snd entry) > 60000 \<longrightarrow>
           (\<exists>t data. snd entry = RegularFile t data)"
  shows "forEach_file now (map fst xs) d =
           (filter (\<lambda>entry. \<not> (entry \<in> set xs \<and> now - mtime (snd entry) > 60000)) d, None)"
  using assms
proof (induction xs arbitrary: d)
  case Nil
  then show ?case by simp
next
  case (Cons x xs)
  obtain fname nd where x: "x = (fname, nd)" by (cases x)
  from Cons.prems(1,2) x have look: "map_of d fname = Some nd" by simp
  have fresh: "fname \<notin> fst ` set xs" using Cons.prems(3) x by simp
  have inj: "inj_on fst (set d)" using Cons.prems(1) by (simp add: distinct_map)
  have xd: "x \<in> set d" using Cons.prems(2) by simp
  have uniq: "entry = x" if "entry \<in> set d" "fst entry = fname" for entry
    using inj_onD [OF inj _ that(1) xd] that(2) x by simp
  show ?case
  proof (cases "now - mtime nd > 60000")
    case True
    with Cons.prems(4) x obtain t data where nd: "nd = RegularFile t data" by auto
    define d' where "d' = filter (\<lambda>entry. fst entry \<noteq> fname) d"
    have 1: "distinct (map fst d')" using Cons.prems(1) by (simp add: d'_def distinct_map_filter)
    have 2: "set xs \<subseteq> set d'" using Cons.prems(2) fresh by (auto simp: d'_def)
    have 3: "distinct (map fst xs)" using Cons.prems(3) by simp
    have 4: "\<forall>entry \<in> set xs. now - mtime (snd entry) > 60000 \<longrightarrow>
           (\<exists>t data. snd entry = RegularFile t data)" using Cons.prems(4) by simp
    have "forEach_file now (map fst (x # xs)) d = forEach_file now (map fst xs) d'"
      using True look nd by (simp add: x statSync_def unlinkSync_def d'_def)
    also have "\<dots> = (filter (\<lambda>entry. \<not> (entry \<in> set xs \<and> now - mtime (snd entry) > 60000)) d', None)"
      by (rule Cons.IH [OF 1 2 3 4])
    also have "filter (\<lambda>entry. \<not> (entry \<in> set xs \<and> now - mtime (snd entry) > 60000)) d' =
        filter (\<lambda>entry. \<not> (entry \<in> set (x # xs) \<and> now - mtime (snd entry) > 60000)) d"
    proof -
      have "(fst e \<noteq> fname \<and> \<not> (e \<in> set xs \<and> now - mtime (snd e) > 60000)) =
          (\<not> (e \<in> set (x # xs) \<and> now - mtime (snd e) > 60000))" if "e \<in> set d" for e
      proof (cases "fst e = fname")
        case same: True
        from uniq [OF that same] have "e = x" .
        with True x show ?thesis by simp
      next
        case False
        then have "e \<noteq> x" using x by auto
        with False show ?thesis by simp
      qed
      then have "filter (\<lambda>e. fst e \<noteq> fname \<and> \<not> (e \<in> set xs \<and> now - mtime (snd e) > 60000)) d =
          filter (\<lambda>e. \<not> (e \<in> set (x # xs) \<and> now - mtime (snd e) > 60000)) d"
        by (intro filter_cong refl)
      then show ?thesis by (simp only: d'_def filter_filter conj_commute)
    qed
    finally show ?thesis .
  next
    case False
    have 3: "distinct (map fst xs)" using Cons.prems(3) by simp
    have 2: "set xs \<subseteq> set d" using Cons.prems(2) by simp
    have 4: "\<forall>entry \<in> set xs. now - mtime (snd entry) > 60000 \<longrightarrow>
           (\<exists>t data. snd entry = RegularFile t data)" using Cons.prems(4) by simp
    have "forEach_file now (map fst (x # xs)) d = forEach_file now (map fst xs) d"
      using False look by (simp add: x statSync_def)
    also have "\<dots> = (filter (\<lambda>entry. \<not> (entry \<in> set xs \<and> now - mtime (snd entry) > 60000)) d, None)"
      by (rule Cons.IH [OF Cons.prems(1) 2 3 4])
    also have "filter (\<lambda>entry. \<not> (entry \<in> set xs \<and> now - mtime (snd entry) > 60000)) d =
        filter (\<lambda>entry. \<not> (entry \<in> set (x # xs) \<and> now - mtime (snd entry) > 60000)) d"
      using False x by (intro filter_cong refl) auto
    finally show ?thesis .
  qed
qed

text \<open>
  In a temporary directory whose entries older than the threshold are regular files, one
  pass removes exactly the files whose age \<open>now - mtime\<close> exceeds \<open>60000\<close> ms and leaves
  every other entry in place, unchanged and in the same order; no error is logged. A file
  whose age is exactly \<open>60000\<close> stays.
\<close>

lemma cleanupTempFiles_sweep:
  assumes "distinct (map fst d)"
    and "\<forall>entry \<in> set d. now - mtime (snd entry) > 60000 \<longrightarrow>
           (\<exists>t data. snd entry = RegularFile t data)"
  shows "cleanupTempFiles now (Some d) =
           (Some (filter (\<lambda>entry. \<not> now - mtime (snd entry) > 60000) d), None)"
proof -
  have "filter (\<lambda>entry. \<not> (entry \<in> set d \<and> now - mtime (snd entry) > 60000)) d =
      filter (\<lambda>entry. \<not> now - mtime (snd entry) > 60000) d"
    by (intro filter_cong refl) auto
  with forEach_file_sweeps [OF assms(1) subset_refl assms(1) assms(2)]
  show ?thesis by (simp add: cleanupTempFiles_def readdirSync_def)
qed

lemma cleanupTempFiles_sweep_example:
  "cleanupTempFiles 100000 (Some example_dir) =
     (Some [(''analysis_0a1b2c3d.json'', RegularFile 40000 ''{}''),
            (''image_a1b2c3d4e5f6.jpg'', RegularFile 40001 ''JPG'')], None)"
proof -
  have h1: "distinct (map fst example_dir)" by (simp add: example_dir_def)
  have h2: "\<forall>entry \<in> set example_dir. 100000 - mtime (snd entry) > 60000 \<longrightarrow>
           (\<exists>t data. snd entry = RegularFile t data)" by (simp add: example_dir_def)
  from cleanupTempFiles_sweep [OF h1 h2] show ?thesis by (simp add: example_dir_def)
qed





lemma cleanupTempFiles_missing: "cleanupTempFiles now None = (None, None)"
  by (simp add: cleanupTempFiles_def)


text \<open>
  However a pass ends, with or without an error, it never removes an entry whose age is
  within the threshold.
\<close>

lemma forEach_file_keeps:
  assumes "distinct (map fst d)" and "forEach_file now xs d = (d', err)"
    and "entry \<in> set d" and "\<not> now - mtime (snd entry) > 60000"
  shows "entry \<in> set d'"
  using assms
proof (induction xs arbitrary: d)
  case Nil
  then show ?case by simp
next
  case (Cons x xs)
  show ?case
  proof (cases "map_of d x")
    case None
    with Cons.prems show ?thesis by (simp add: statSync_def)
  next
    case (Some nd)
    show ?thesis
    proof (cases "now - mtime nd > 60000")
      case False
      with Some Cons.prems have "forEach_file now xs d = (d', err)" by (simp add: statSync_def)
      with Cons.IH Cons.prems show ?thesis by blast
    next
      case True
      show ?thesis
      proof (cases nd)
        case (Directory t)
        with Some True Cons.prems show ?thesis by (simp add: statSync_def unlinkSync_def)
      next
        case (RegularFile t data)
        define d1 where "d1 = filter (\<lambda>e. fst e \<noteq> x) d"
        from Some True RegularFile Cons.prems(2) have run: "forEach_file now xs d1 = (d', err)"
          by (simp add: statSync_def unlinkSync_def d1_def)
        have "fst entry \<noteq> x"
        proof
          assume "fst entry = x"
          with Cons.prems(1,3) have "map_of d x = Some (snd entry)" by auto
          with Some have "snd entry = nd" by simp
          with True Cons.prems(4) show False by simp
        qed
        with Cons.prems(3) have "entry \<in> set d1" by (simp add: d1_def)
        moreover have "distinct (map fst d1)"
          using Cons.prems(1) by (simp add: d1_def distinct_map_filter)
        ultimately show ?thesis using Cons.IH [OF _ run] Cons.prems(4) by blast
      qed
    qed
  qed
qed

lemma cleanupTempFiles_keeps:
  assumes "distinct (map fst d)" and "cleanupTempFiles now (Some d) = (Some d', err)"
    and "entry \<in> set d" and "\<not> now - mtime (snd entry) > 60000"
  shows "entry \<in> set d'"
proof -
  from assms(2) have "forEach_file now (readdirSync d) d = (d', err)"
    by (simp add: cleanupTempFiles_def split: prod.splits)
  from forEach_file_keeps [OF assms(1) this assms(3,4)] show ?thesis .
qed


section \<open>Properties of the number model\<close>

text \<open>
  \<open>ilog2\<close> is the binary exponent of its argument. \<open>round_double x\<close> is an integer of
  at most 53 bits times a power of two not below \<open>2 powi - 1074\<close>, and it lies within
  half a unit in the last place of \<open>x\<close>: it is a double nearest to \<open>x\<close>.
\<close>

lemma bitlen_nonneg: "0 \<le> bitlen n"
proof (induction n rule: bitlen.induct)
  case (1 n)
  then show ?case by (cases "n \<le> 0") (simp_all add: bitlen.simps [of n])
qed

lemma bitlen_pos: "0 < n \<Longrightarrow> 1 \<le> bitlen n"
  using bitlen_nonneg [of "n div 2"] by (simp add: bitlen.simps [of n])

lemma bitlen_bounds:
  "0 < n \<Longrightarrow> 2 ^ nat (bitlen n - 1) \<le> n \<and> n < 2 ^ nat (bitlen n)"
proof (induction n rule: bitlen.induct)
  case (1 n)
  show ?case
  proof (cases "n div 2 \<le> 0")
    case True
    with "1.prems" have "n = 1" by linarith
    then show ?thesis by (simp add: bitlen.simps [of 1] bitlen.simps [of 0])
  next
    case False
    then have pos: "0 < n div 2" by simp
    with "1.IH" "1.prems" have IH: "2 ^ nat (bitlen (n div 2) - 1) \<le> n div 2"
      "n div 2 < 2 ^ nat (bitlen (n div 2))" by simp_all
    define k where "k = nat (bitlen (n div 2) - 1)"
    from bitlen_pos [OF pos] have k: "nat (bitlen (n div 2)) = Suc k" by (simp add: k_def)
    have bl: "bitlen n = 1 + bitlen (n div 2)" using "1.prems" by (simp add: bitlen.simps [of n])
    from bitlen_pos [OF pos] have e1: "nat (bitlen n - 1) = Suc k" and e2: "nat (bitlen n) = Suc (Suc k)"
      by (simp_all add: bl k_def)
    from IH k have a: "(2::int) ^ k \<le> n div 2" and b: "n div 2 < 2 ^ Suc k" by (simp_all add: k_def)
    from a have "2 * 2 ^ k \<le> n" by linarith
    moreover from b have "n < 2 * 2 ^ Suc k" by linarith
    ultimately show ?thesis by (simp add: e1 e2)
  qed
qed

lemma powi_nat: "0 \<le> i \<Longrightarrow> (2::rat) powi i = 2 ^ nat i"
  by (simp add: power_int_def)

lemma ilog2_bounds:
  assumes "0 < x"
  shows "2 powi ilog2 x \<le> x \<and> x < 2 powi (ilog2 x + 1)"
proof -
  obtain a b where q: "quotient_of x = (a, b)" by (cases "quotient_of x")
  then have b: "0 < b" by (rule quotient_of_denom_pos)
  from q have x: "x = of_int a / of_int b" by (rule quotient_of_div)
  with assms b have a: "0 < a" by (simp add: zero_less_divide_iff)
  define la lb where "la = bitlen a" and "lb = bitlen b"
  from bitlen_bounds [OF a] have a1: "(2::rat) ^ nat (la - 1) \<le> of_int a" and a2: "of_int a < (2::rat) ^ nat la"
    unfolding la_def by (metis of_int_le_iff of_int_numeral of_int_power, metis of_int_less_iff of_int_numeral of_int_power)
  from bitlen_bounds [OF b] have b1: "(2::rat) ^ nat (lb - 1) \<le> of_int b" and b2: "of_int b < (2::rat) ^ nat lb"
    unfolding lb_def by (metis of_int_le_iff of_int_numeral of_int_power, metis of_int_less_iff of_int_numeral of_int_power)
  have la: "1 \<le> la" and lb: "1 \<le> lb" unfolding la_def lb_def by (rule bitlen_pos [OF a], rule bitlen_pos [OF b])
  have A1: "(2::rat) powi (la - 1) \<le> of_int a" "of_int a < (2::rat) powi la"
    using a1 a2 la by (simp_all add: powi_nat)
  have B1: "(2::rat) powi (lb - 1) \<le> of_int b" "of_int b < (2::rat) powi lb"
    using b1 b2 lb by (simp_all add: powi_nat)
  have bpos: "(0::rat) < of_int b" using b by simp
  have lower: "2 powi (la - lb - 1) < x"
  proof -
    have "2 powi (la - lb - 1) * of_int b < (2::rat) powi (la - lb - 1) * 2 powi lb"
      using B1(2) by (simp add: mult_strict_left_mono)
    also have "\<dots> = 2 powi (la - 1)" by (simp add: power_int_add [symmetric])
    also have "\<dots> \<le> of_int a" by (rule A1(1))
    finally show ?thesis using bpos by (simp add: x pos_less_divide_eq)
  qed
  have upper: "x < 2 powi (la - lb + 1)"
  proof -
    have "of_int a < (2::rat) powi la" by (rule A1(2))
    also have "\<dots> = 2 powi (la - lb + 1) * 2 powi (lb - 1)" by (simp add: power_int_add [symmetric])
    also have "\<dots> \<le> 2 powi (la - lb + 1) * of_int b"
      using B1(1) by (simp add: mult_left_mono)
    finally show ?thesis using bpos by (simp add: x pos_divide_less_eq)
  qed
  show ?thesis
  proof (cases "x < 2 powi (la - lb)")
    case True
    then have "ilog2 x = la - lb - 1" by (simp add: ilog2_def q la_def lb_def Let_def)
    with True lower show ?thesis by simp
  next
    case False
    then have "ilog2 x = la - lb" by (simp add: ilog2_def q la_def lb_def Let_def)
    with False upper show ?thesis by simp
  qed
qed

lemma round_half_even_cases:
  obtains "round_half_even x = \<lfloor>x\<rfloor>" "x - of_int \<lfloor>x\<rfloor> \<le> 1 / 2"
  | "round_half_even x = \<lfloor>x\<rfloor> + 1" "1 / 2 \<le> x - of_int \<lfloor>x\<rfloor>"
  unfolding round_half_even_def Let_def
  by (cases "x - of_int \<lfloor>x\<rfloor> < 1 / 2"; cases "1 / 2 < x - of_int \<lfloor>x\<rfloor>"; cases "even \<lfloor>x\<rfloor>") force+

lemma round_half_even_nearest: "\<bar>of_int (round_half_even x) - x\<bar> \<le> 1 / 2"
proof -
  define m where "m = \<lfloor>x\<rfloor>"
  have fl: "of_int m \<le> x" "x < of_int m + 1" unfolding m_def by linarith+
  show ?thesis
  proof (cases x rule: round_half_even_cases)
    case 1
    with fl show ?thesis unfolding m_def [symmetric] by simp
  next
    case 2
    with fl show ?thesis unfolding m_def [symmetric] by simp
  qed
qed

lemma round_double_error:
  assumes "x \<noteq> 0"
  shows "\<bar>round_double x - x\<bar> \<le> 2 powi (max (ilog2 \<bar>x\<bar> - 52) (- 1074)) / 2"
proof -
  define e where "e = max (ilog2 \<bar>x\<bar> - 52) (- 1074)"
  have p: "(0::rat) < 2 powi e" by simp
  have "round_double x - x = (of_int (round_half_even (x / 2 powi e)) - x / 2 powi e) * 2 powi e"
    using assms p by (simp add: round_double_def e_def [symmetric] Let_def algebra_simps)
  then have "\<bar>round_double x - x\<bar> = \<bar>of_int (round_half_even (x / 2 powi e)) - x / 2 powi e\<bar> * 2 powi e"
    using p by (simp add: abs_mult)
  also have "\<dots> \<le> 1 / 2 * 2 powi e"
    using round_half_even_nearest [of "x / 2 powi e"] p by (intro mult_right_mono) simp_all
  finally show ?thesis by (simp add: e_def)
qed

lemma round_double_significand:
  assumes "x \<noteq> 0"
  shows "\<bar>round_half_even (x / 2 powi (max (ilog2 \<bar>x\<bar> - 52) (- 1074)))\<bar> \<le> 2 ^ 53"
proof -
  define e where "e = max (ilog2 \<bar>x\<bar> - 52) (- 1074)"
  define y where "y = x / 2 powi e"
  from assms have "0 < \<bar>x\<bar>" by simp
  from ilog2_bounds [OF this] have "\<bar>x\<bar> < 2 powi (ilog2 \<bar>x\<bar> + 1)" by simp
  also have "\<dots> \<le> 2 powi (e + 53)" by (intro power_int_increasing) (simp_all add: e_def)
  also have "\<dots> = 2 powi e * 2 ^ 53" by (simp add: power_int_add)
  finally have "\<bar>y\<bar> < 2 ^ 53" by (simp add: y_def abs_divide pos_divide_less_eq mult.commute)
  then have "- (2 ^ 53) < y" "y < 2 ^ 53" by (simp_all add: abs_less_iff)
  then have fl: "- (2 ^ 53) \<le> \<lfloor>y\<rfloor>" "\<lfloor>y\<rfloor> < 2 ^ 53"
    by (simp_all add: le_floor_iff floor_less_iff)
  have "- (2 ^ 53) \<le> round_half_even y \<and> round_half_even y \<le> 2 ^ 53"
  proof (cases y rule: round_half_even_cases)
    case 1
    with fl show ?thesis by linarith
  next
    case 2
    with fl show ?thesis by linarith
  qed
  then show ?thesis unfolding y_def e_def by (simp add: abs_le_iff)
qed


section \<open>Properties of handleCompare\<close>

text \<open>
  The threshold on its way from the option to the remote call, evaluated for the values
  the statements below speak of, and the two ways a run ends when the remote call is
  rejected.
\<close>

lemma threshold_80: "js_mul (js_div 80 100) 100 = 80"
  by code_simp

lemma threshold_75: "js_div 75 100 = 3 / 4" "js_mul (3 / 4) 100 = 75"
  by code_simp+

lemma threshold_7: "js_mul (js_div 7 100) 100 = 7881299347898369 / 1125899906842624"
  by code_simp

lemma whole_percentages_1:
  "list_all (\<lambda>p. js_mul (js_div (rat_of_int p) 100) 100 = rat_of_int p)
     (filter (\<lambda>p. p \<notin> set [7, 14]) [1..25])"
  by code_simp

lemma whole_percentages_2:
  "list_all (\<lambda>p. js_mul (js_div (rat_of_int p) 100) 100 = rat_of_int p)
     (filter (\<lambda>p. p \<notin> set [28, 29]) [26..50])"
  by code_simp

lemma whole_percentages_3:
  "list_all (\<lambda>p. js_mul (js_div (rat_of_int p) 100) 100 = rat_of_int p)
     (filter (\<lambda>p. p \<notin> set [55, 56, 57, 58]) [51..75])"
  by code_simp

lemma whole_percentages_4:
  "list_all (\<lambda>p. js_mul (js_div (rat_of_int p) 100) 100 = rat_of_int p) [76..100]"
  by code_simp

lemma whole_percentages:
  assumes "1 \<le> p" "p \<le> 100" "p \<notin> {7, 14, 28, 29, 55, 56, 57, 58}"
  shows "js_mul (js_div (rat_of_int p) 100) 100 = rat_of_int p"
proof -
  have "p \<in> set (filter (\<lambda>p. p \<notin> set [7, 14]) [1..25]) \<or>
      p \<in> set (filter (\<lambda>p. p \<notin> set [28, 29]) [26..50]) \<or>
      p \<in> set (filter (\<lambda>p. p \<notin> set [55, 56, 57, 58]) [51..75]) \<or>
      p \<in> set [76..100]"
    unfolding set_filter set_upto using assms by auto
  with whole_percentages_1 whole_percentages_2 whole_percentages_3 whole_percentages_4
  show ?thesis
    unfolding list_all_iff by blast
qed

lemma handleCompare_started:
  assumes "\<not> (falsy (source_url opts) \<and> source_image opts = None)"
    and "\<not> (falsy (target_url opts) \<and> target_image opts = None)"
    and "process_image env (source_image opts) (source_url opts) ''source'' d0 = (Inr sr, d1)"
    and "process_image env (target_image opts) (target_url opts) ''target'' d1 = (Inr tr, d2)"
  shows "sent (handleCompare env opts d0) =
           [CompareFacesCommand (buffer sr) (buffer tr)
              (js_mul (js_div (or_default (similarity opts) 80) 100) 100)]"
    and "take 2 (replies (handleCompare env opts d0)) =
           [PreparingFaceComparison (or_default (similarity opts) 80), ComparingFaces]"
  using assms
  by (auto simp: handleCompare_def handleCompare_try_def compareFaces_def Let_def
      split: settled.splits prod.splits option.splits)

lemma handleCompare_rejected:
  assumes "\<not> (falsy (source_url opts) \<and> source_image opts = None)"
    and "\<not> (falsy (target_url opts) \<and> target_image opts = None)"
    and "process_image env (source_image opts) (source_url opts) ''source'' d0 = (Inr sr, d1)"
    and "process_image env (target_image opts) (target_url opts) ''target'' d1 = (Inr tr, d2)"
    and "snd (client_send env (CompareFacesCommand (buffer sr) (buffer tr)
           (js_mul (js_div (or_default (similarity opts) 80) 100) 100))) = Rejected e"
  shows "handleCompare env opts d0 =
     (if code e = Some ''InvalidParameterException'' \<and> string_includes (message e) ''no face''
      then \<lparr>replies = [PreparingFaceComparison (or_default (similarity opts) 80), ComparingFaces,
                NoFacesDetected],
             sent = [CompareFacesCommand (buffer sr) (buffer tr)
                (js_mul (js_div (or_default (similarity opts) 80) 100) 100)],
             thrown = None, dir = d2\<rparr>
      else \<lparr>replies = [PreparingFaceComparison (or_default (similarity opts) 80), ComparingFaces],
             sent = [CompareFacesCommand (buffer sr) (buffer tr)
                (js_mul (js_div (or_default (similarity opts) 80) 100) 100)],
             thrown = Some e, dir = d2\<rparr>)"
  using assms
  by (auto simp: handleCompare_def handleCompare_try_def compareFaces_def Let_def)

lemma string_includes_nonempty: "string_includes s sub \<Longrightarrow> sub \<noteq> [] \<Longrightarrow> s \<noteq> []"
  by (cases s) auto

text \<open>
  The branch of the \<^verbatim>\<open>catch\<close> clause as it is written. When both images have been
  obtained and the remote comparison is rejected with an error whose \<^verbatim>\<open>code\<close> is
  \<^verbatim>\<open>InvalidParameterException\<close> and whose message includes \<^verbatim>\<open>no face\<close>, \<open>handleCompare\<close>
  answers with the message \<open>NoFacesDetected\<close> and returns normally.
\<close>

lemma handleCompare_no_face_branch:
  assumes "\<not> (falsy (source_url opts) \<and> source_image opts = None)"
    and "\<not> (falsy (target_url opts) \<and> target_image opts = None)"
    and "process_image env (source_image opts) (source_url opts) ''source'' d0 = (Inr sr, d1)"
    and "process_image env (target_image opts) (target_url opts) ''target'' d1 = (Inr tr, d2)"
    and "snd (client_send env (CompareFacesCommand (buffer sr) (buffer tr)
           (js_mul (js_div (or_default (similarity opts) 80) 100) 100))) = Rejected e"
    and "code e = Some ''InvalidParameterException''"
    and "string_includes (message e) ''no face''"
  shows "thrown (handleCompare env opts d0) = None \<and>
         replies (handleCompare env opts d0) =
           [PreparingFaceComparison (or_default (similarity opts) 80), ComparingFaces,
            NoFacesDetected] \<and>
         handleError e = ErrorMessage (message e)"
proof -
  from assms(7) have "message e \<noteq> []" by (rule string_includes_nonempty) simp
  with assms(6) have "handleError e = ErrorMessage (message e)" by (simp add: handleError_def)
  with handleCompare_rejected [OF assms(1-5)] assms(6,7) show ?thesis by simp
qed

lemma handleCompare_no_face_branch_example:
  "thrown (handleCompare example_env (example_options None) []) = None \<and>
   replies (handleCompare example_env (example_options None) []) =
     [PreparingFaceComparison 80, ComparingFaces, NoFacesDetected] \<and>
   handleError \<lparr>code = Some ''InvalidParameterException'',
                message = ''There are no faces in the image''\<rparr> =
     ErrorMessage ''There are no faces in the image''"
proof -
  define e where "e = \<lparr>code = Some ''InvalidParameterException'',
                message = ''There are no faces in the image''\<rparr>"
  have h1: "\<not> (falsy (source_url (example_options None)) \<and> source_image (example_options None) = None)"
    and h2: "\<not> (falsy (target_url (example_options None)) \<and> target_image (example_options None) = None)"
    by (simp_all add: example_options_def)
  have h3: "process_image example_env (source_image (example_options None))
      (source_url (example_options None)) ''source'' [] = (Inr example_image, [])"
    and h4: "process_image example_env (target_image (example_options None))
      (target_url (example_options None)) ''target'' [] = (Inr example_image, [])"
    by (simp_all add: example_options_def process_image_def example_env_def)
  have h5: "snd (client_send example_env (CompareFacesCommand (buffer example_image)
      (buffer example_image)
      (js_mul (js_div (or_default (similarity (example_options None)) 80) 100) 100))) = Rejected e"
    by (simp add: example_env_def example_send_def e_def)
  have h6: "code e = Some ''InvalidParameterException''" by (simp add: e_def)
  have h7: "string_includes (message e) ''no face''" by (simp add: e_def)
  from handleCompare_no_face_branch [OF h1 h2 h3 h4 h5 h6 h7]
  show ?thesis by (simp add: e_def example_options_def or_default_def)
qed

text \<open>
  An error without a \<^verbatim>\<open>code\<close> never takes that branch, whatever its message says: it is
  rethrown, and no run answers it with \<open>NoFacesDetected\<close>.
\<close>

lemma handleCompare_codeless_rethrown:
  assumes "\<not> (falsy (source_url opts) \<and> source_image opts = None)"
    and "\<not> (falsy (target_url opts) \<and> target_image opts = None)"
    and "process_image env (source_image opts) (source_url opts) ''source'' d0 = (Inr sr, d1)"
    and "process_image env (target_image opts) (target_url opts) ''target'' d1 = (Inr tr, d2)"
    and "snd (client_send env (CompareFacesCommand (buffer sr) (buffer tr)
           (js_mul (js_div (or_default (similarity opts) 80) 100) 100))) = Rejected e"
    and "code e = None"
  shows "thrown (handleCompare env opts d0) = Some e"
    and "NoFacesDetected \<notin> set (replies (handleCompare env opts d0))"
  using handleCompare_rejected [OF assms(1-5)] assms(6) by simp_all

text \<open>
  Claim C4. A comparison that fails because an image shows no face is to be answered with
  the message \<open>NoFacesDetected\<close>, not as a generic remote failure. The code tests
  \<^verbatim>\<open>error.code\<close>, which the exceptions of the SDK v3 client do not carry. With the
  rejection that client produces for an image without a face, \<open>handleCompare\<close> sends no
  \<open>NoFacesDetected\<close>: it rethrows, and \<open>handleError\<close> answers with the raw error text.
\<close>

theorem handleCompare_no_face_rethrown:
  "thrown (handleCompare sdk_v3_env (example_options None) []) =
     Some \<lparr>code = None, message = ''Request has invalid parameters''\<rparr> \<and>
   replies (handleCompare sdk_v3_env (example_options None) []) =
     [PreparingFaceComparison 80, ComparingFaces] \<and>
   handleError \<lparr>code = None, message = ''Request has invalid parameters''\<rparr> =
     ErrorMessage ''Request has invalid parameters''"
proof -
  let ?o = "example_options None"
  define e where "e = \<lparr>code = None, message = ''Request has invalid parameters''\<rparr>"
  have h1: "\<not> (falsy (source_url ?o) \<and> source_image ?o = None)"
    and h2: "\<not> (falsy (target_url ?o) \<and> target_image ?o = None)"
    by (simp_all add: example_options_def)
  have h3: "process_image sdk_v3_env (source_image ?o) (source_url ?o) ''source'' [] =
      (Inr example_image, [])"
    and h4: "process_image sdk_v3_env (target_image ?o) (target_url ?o) ''target'' [] =
      (Inr example_image, [])"
    by (simp_all add: example_options_def process_image_def example_env_def sdk_v3_env_def)
  have h5: "snd (client_send sdk_v3_env (CompareFacesCommand (buffer example_image)
      (buffer example_image)
      (js_mul (js_div (or_default (similarity ?o) 80) 100) 100))) = Rejected e"
    by (simp add: sdk_v3_env_def sdk_v3_send_def e_def)
  have "handleError e = ErrorMessage ''Request has invalid parameters''"
    by (simp add: handleError_def e_def)
  with handleCompare_rejected [OF h1 h2 h3 h4 h5]
  show ?thesis by (simp add: e_def example_options_def or_default_def)
qed

lemma handleCompare_other_failure:
  assumes "\<not> (falsy (source_url opts) \<and> source_image opts = None)"
    and "\<not> (falsy (target_url opts) \<and> target_image opts = None)"
    and "process_image env (source_image opts) (source_url opts) ''source'' d0 = (Inr sr, d1)"
    and "process_image env (target_image opts) (target_url opts) ''target'' d1 = (Inr tr, d2)"
    and "snd (client_send env (CompareFacesCommand (buffer sr) (buffer tr)
           (js_mul (js_div (or_default (similarity opts) 80) 100) 100))) = Rejected e"
    and "\<not> (code e = Some ''InvalidParameterException'' \<and> string_includes (message e) ''no face'')"
  shows "thrown (handleCompare env opts d0) = Some e"
  using handleCompare_rejected [OF assms(1-5)] assms(6) by simp

text \<open>
  Claim C9. When the user supplies the similarity \<open>0\<close>, which the option accepts, the
  falsiness check \<^verbatim>\<open>getNumber('similarity') || 80\<close> replaces it by the default: the
  progress message announces \<open>80\<close> and the remote call is made with the similarity
  threshold \<open>80\<close>, not \<open>0\<close>.
\<close>

theorem handleCompare_zero_similarity:
  assumes "similarity opts = Some 0"
    and "\<not> (falsy (source_url opts) \<and> source_image opts = None)"
    and "\<not> (falsy (target_url opts) \<and> target_image opts = None)"
    and "process_image env (source_image opts) (source_url opts) ''source'' d0 = (Inr sr, d1)"
    and "process_image env (target_image opts) (target_url opts) ''target'' d1 = (Inr tr, d2)"
  shows "sent (handleCompare env opts d0) = [CompareFacesCommand (buffer sr) (buffer tr) 80] \<and>
         take 2 (replies (handleCompare env opts d0)) = [PreparingFaceComparison 80, ComparingFaces]"
  using handleCompare_started [OF assms(2-5)] assms(1)
  by (simp add: or_default_def threshold_80)

theorem handleCompare_zero_similarity_witness:
  "sent (handleCompare example_env (example_options (Some 0)) []) =
     [CompareFacesCommand [255, 216, 255] [255, 216, 255] 80] \<and>
   take 2 (replies (handleCompare example_env (example_options (Some 0)) [])) =
     [PreparingFaceComparison 80, ComparingFaces]"
proof -
  let ?o = "example_options (Some 0)"
  have h0: "similarity ?o = Some 0" by (simp add: example_options_def)
  have h1: "\<not> (falsy (source_url ?o) \<and> source_image ?o = None)"
    and h2: "\<not> (falsy (target_url ?o) \<and> target_image ?o = None)"
    by (simp_all add: example_options_def)
  have h3: "process_image example_env (source_image ?o) (source_url ?o) ''source'' [] =
      (Inr example_image, [])"
    and h4: "process_image example_env (target_image ?o) (target_url ?o) ''target'' [] =
      (Inr example_image, [])"
    by (simp_all add: example_options_def process_image_def example_env_def)
  from handleCompare_zero_similarity [OF h0 h1 h2 h3 h4]
  show ?thesis by (simp add: example_image_def)
qed

text \<open>
  Claim C5 says that for every percentage \<open>p\<close> the remote call receives \<open>p\<close> again.
  Division and multiplication are rounded: for the similarity \<open>7\<close> the call site passes
  the double nearest to \<open>0.07\<close>, and \<open>compareFaces\<close> passes the double nearest to a
  hundred times that, which is \<open>7.000000000000001\<close>.
\<close>

theorem threshold_roundtrip_counterexample:
  "sent (handleCompare example_env (example_options (Some 7)) []) =
     [CompareFacesCommand [255, 216, 255] [255, 216, 255] (7881299347898369 / 1125899906842624)] \<and>
   (7881299347898369 / 1125899906842624 :: rat) \<noteq> 7"
proof -
  let ?o = "example_options (Some 7)"
  have h1: "\<not> (falsy (source_url ?o) \<and> source_image ?o = None)"
    and h2: "\<not> (falsy (target_url ?o) \<and> target_image ?o = None)"
    by (simp_all add: example_options_def)
  have h3: "process_image example_env (source_image ?o) (source_url ?o) ''source'' [] =
      (Inr example_image, [])"
    and h4: "process_image example_env (target_image ?o) (target_url ?o) ''target'' [] =
      (Inr example_image, [])"
    by (simp_all add: example_options_def process_image_def example_env_def)
  from handleCompare_started(1) [OF h1 h2 h3 h4]
  show ?thesis by (simp add: example_image_def example_options_def or_default_def threshold_7)
qed

text \<open>
  Claim C5, amended. For every whole percentage \<open>p\<close> from \<open>1\<close> to \<open>100\<close> other than
  \<open>7\<close>, \<open>14\<close>, \<open>28\<close>, \<open>29\<close>, \<open>55\<close>, \<open>56\<close>, \<open>57\<close> and \<open>58\<close>, the call site passes the
  double nearest to \<open>p / 100\<close> to \<open>compareFaces\<close>, and \<open>compareFaces\<close> passes exactly
  \<open>p\<close> as the similarity threshold of the remote call. In particular \<open>75\<close> becomes
  \<open>0.75\<close> and then \<open>75\<close>.
\<close>

theorem threshold_roundtrip_whole:
  assumes "1 \<le> p" and "p \<le> 100" and "p \<notin> {7, 14, 28, 29, 55, 56, 57, 58}"
    and "similarity opts = Some (rat_of_int p)"
    and "\<not> (falsy (source_url opts) \<and> source_image opts = None)"
    and "\<not> (falsy (target_url opts) \<and> target_image opts = None)"
    and "process_image env (source_image opts) (source_url opts) ''source'' d0 = (Inr sr, d1)"
    and "process_image env (target_image opts) (target_url opts) ''target'' d1 = (Inr tr, d2)"
  shows "sent (handleCompare env opts d0) =
           [fst (compareFaces (client_send env) (buffer sr) (buffer tr) (js_div (rat_of_int p) 100))] \<and>
         fst (compareFaces (client_send env) (buffer sr) (buffer tr) (js_div (rat_of_int p) 100)) =
           CompareFacesCommand (buffer sr) (buffer tr) (rat_of_int p) \<and>
         js_div 75 100 = 3 / 4 \<and>
         fst (compareFaces (client_send env) (buffer sr) (buffer tr) (3 / 4)) =
           CompareFacesCommand (buffer sr) (buffer tr) 75"
proof -
  from assms(1) have "rat_of_int p \<noteq> 0" by simp
  with assms(4) have thr: "or_default (similarity opts) 80 = rat_of_int p"
    by (simp add: or_default_def)
  from whole_percentages [OF assms(1-3)] handleCompare_started(1) [OF assms(5-8)] thr
  show ?thesis by (simp add: compareFaces_def threshold_75 Let_def)
qed

theorem threshold_roundtrip_whole_witness:
  "sent (handleCompare example_env (example_options (Some 75)) []) =
     [CompareFacesCommand [255, 216, 255] [255, 216, 255] 75] \<and>
   js_div 75 100 = 3 / 4"
proof -
  let ?o = "example_options (Some (rat_of_int 75))"
  have p: "(1::int) \<le> 75" "(75::int) \<le> 100" "(75::int) \<notin> {7, 14, 28, 29, 55, 56, 57, 58}"
    by simp_all
  have h0: "similarity ?o = Some (rat_of_int 75)" by (simp add: example_options_def)
  have h1: "\<not> (falsy (source_url ?o) \<and> source_image ?o = None)"
    and h2: "\<not> (falsy (target_url ?o) \<and> target_image ?o = None)"
    by (simp_all add: example_options_def)
  have h3: "process_image example_env (source_image ?o) (source_url ?o) ''source'' [] =
      (Inr example_image, [])"
    and h4: "process_image example_env (target_image ?o) (target_url ?o) ''target'' [] =
      (Inr example_image, [])"
    by (simp_all add: example_options_def process_image_def example_env_def)
  from threshold_roundtrip_whole [OF p h0 h1 h2 h3 h4]
  show ?thesis by (simp add: example_image_def)
qed

end
